theory Spec2Isabelle
  imports Complex_Main "HOL-Library.Multiset" "HOL-Library.Log_Nat"
begin

section \<open>Pairwise similarity comparison engine: the model\<close>

text \<open>
  A shallow embedding of the comparison engine of ts-function-similarity: the edit-distance
  core and the scorer (levenshtein.ts), the sequential driver (comparator.ts), the worker
  (worker.ts) and the parallel coordinator (comparatorParallel.ts).

  Conventions of the model.
  \<^item> A JavaScript string is the list of its UTF-16 code units; the edit-distance functions
    only compare code units for equality, so they are generic in the element type.
  \<^item> JavaScript numbers that hold array entries, lengths, distances and indices are natural
    numbers and line numbers are integers: they stay below 2 to the power 53, where the arithmetic of
    doubles on integers is exact, and so do the integer ceilings that the scorer passes to the
    thresholded distance. Halving an integer is exact as well.
  \<^item> Scores, similarity thresholds and every quotient and product that need not be an
    integer are doubles, and each such operation is rounded as IEEE 754 prescribes (\<open>fl\<close>
    below). NaN is written out where the code can produce it (the ratio filter on two empty
    texts).
  \<^item> \<open>Math.floor x\<close> is \<open>\<lfloor>x\<rfloor>\<close> and \<open>Math.round x\<close> is \<open>\<lfloor>x + 1/2\<rfloor>\<close> (halves round up), both exact
    on the double they receive. \<open>Math.ceil\<close> of the quotient of the fragment count by the
    number of workers is the exact ceiling: the workers are at most 8, so a quotient that is
    not an integer is at least \<open>1/8\<close> away from one, far more than the rounding of the division.
  \<^item> \<open>new Array(n)\<close> is a list of \<open>n\<close> zeros: every slot is written before it is read.
  \<^item> \<open>Array.prototype.sort\<close> with the comparator \<open>b.normalizedScore - a.normalizedScore\<close> is
    the stable sort by descending score (ECMAScript 2019 requires stability).
  \<^item> The progress callback has no influence on the returned list and is left out.
\<close>

subsection \<open>JavaScript numbers\<close>

text \<open>
  A finite double is the rational it denotes. \<open>fl x\<close> is the double nearest to the rational
  \<open>x\<close>, ties going to the even significand: \<open>binade\<close> finds the exponent of the power of two
  at or below \<open>\<bar>x\<bar>\<close>, the unit in the last place is 52 binary places below it (the exponent
  is never taken below -1022, which gives the subnormal numbers), and \<open>x\<close> is rounded to a
  multiple of that unit. A JavaScript operation on doubles is the exact operation followed by
  \<open>fl\<close>. Overflow to \<open>Infinity\<close> is not modelled: it needs magnitudes near 1.8e308, which no
  length, score or percentage reaches.
\<close>

definition binade :: "rat \<Rightarrow> int" where
  "binade x = (if 1 \<le> x then int (floorlog 2 (nat \<lfloor>x\<rfloor>)) - 1
               else - int (floorlog 2 (nat (\<lceil>1 / x\<rceil> - 1))))"

definition roundEven :: "rat \<Rightarrow> int" where
  "roundEven y = (let f = \<lfloor>y\<rfloor>; r = y - of_int f
                  in if r < 1 / 2 then f else if 1 / 2 < r then f + 1
                     else if even f then f else f + 1)"

definition fl :: "rat \<Rightarrow> rat" where
  "fl x = (if x = 0 then 0
           else let e = max (binade \<bar>x\<bar>) (- 1022); s = 2 powi (e - 52)
                in of_int (roundEven (x / s)) * s)"

subsection \<open>Edit-distance core (levenshtein.ts)\<close>

text \<open>The body of the inner \<open>for j\<close> loop of \<open>levenshteinDistance\<close>.\<close>

definition cellUpdate :: "'a list \<Rightarrow> 'a list \<Rightarrow> nat \<Rightarrow> nat list \<Rightarrow> nat \<Rightarrow> nat list \<Rightarrow> nat list" where
  "cellUpdate str1 str2 i prevRow j currRow =
     (let cost = (if str1 ! (i - 1) = str2 ! (j - 1) then 0 else 1)
      in currRow[j := min (prevRow ! j + 1) (min (currRow ! (j - 1) + 1) (prevRow ! (j - 1) + cost))])"

text \<open>One iteration of the outer \<open>for i\<close> loop, before the swap of the two rows.\<close>

definition fillRow :: "'a list \<Rightarrow> 'a list \<Rightarrow> nat \<Rightarrow> nat list \<Rightarrow> nat list \<Rightarrow> nat list" where
  "fillRow str1 str2 i prevRow currRow =
     fold (cellUpdate str1 str2 i prevRow) [1..<Suc (length str2)] (currRow[0 := i])"

text \<open>The initialisation loop \<open>prevRow[j] = j\<close> on a fresh array.\<close>

definition initRow :: "nat \<Rightarrow> nat list" where
  "initRow len2 = fold (\<lambda>j row. row[j := j]) [0..<Suc len2] (replicate (len2 + 1) 0)"

text \<open>
  The outer loop with its swap of the two rows, on the operands after the exchange that
  makes the first one the shorter; it returns both rows.
\<close>

definition rowLoop :: "'a list \<Rightarrow> 'a list \<Rightarrow> nat list \<times> nat list" where
  "rowLoop s1 s2 =
     fold (\<lambda>i (prevRow, currRow). (fillRow s1 s2 i prevRow currRow, prevRow))
       [1..<Suc (length s1)] (initRow (length s2), replicate (length s2 + 1) 0)"

definition levenshteinDistance :: "'a list \<Rightarrow> 'a list \<Rightarrow> nat" where
  "levenshteinDistance str1 str2 =
     (let len1 = length str1; len2 = length str2 in
      if len1 = 0 then len2
      else if len2 = 0 then len1
      else if str1 = str2 then 0
      else
        let (s1, s2) = (if len1 > len2 then (str2, str1) else (str1, str2));
            (prevRow, currRow) = rowLoop s1 s2
        in prevRow ! length s2)"

text \<open>
  The thresholded variant: the inner loop also tracks the minimum of the row, and the outer
  loop (\<open>rowStepsT\<close> over the row indices still to do) may return early, which the model
  writes as \<open>Inl\<close>.
\<close>

definition cellUpdateT ::
  "'a list \<Rightarrow> 'a list \<Rightarrow> nat \<Rightarrow> nat list \<Rightarrow> nat \<Rightarrow> nat list \<times> nat \<Rightarrow> nat list \<times> nat" where
  "cellUpdateT str1 str2 i prevRow j st =
     (let (currRow, minInRow) = st;
          cost = (if str1 ! (i - 1) = str2 ! (j - 1) then 0 else 1);
          v = min (prevRow ! j + 1) (min (currRow ! (j - 1) + 1) (prevRow ! (j - 1) + cost))
      in (currRow[j := v], if v < minInRow then v else minInRow))"

definition fillRowT :: "'a list \<Rightarrow> 'a list \<Rightarrow> nat \<Rightarrow> nat list \<Rightarrow> nat list \<Rightarrow> nat list \<times> nat" where
  "fillRowT str1 str2 i prevRow currRow =
     fold (cellUpdateT str1 str2 i prevRow) [1..<Suc (length str2)] (currRow[0 := i], i)"

fun rowStepsT ::
  "'a list \<Rightarrow> 'a list \<Rightarrow> rat option \<Rightarrow> nat list \<Rightarrow> nat list \<times> nat list \<Rightarrow> rat + nat list \<times> nat list" where
  "rowStepsT str1 str2 maxDistance [] st = Inr st"
| "rowStepsT str1 str2 maxDistance (i # is) st =
     (let (prevRow, currRow) = st;
          (currRow', minInRow) = fillRowT str1 str2 i prevRow currRow
      in if maxDistance \<noteq> None \<and> of_nat minInRow > the maxDistance
         then Inl (the maxDistance + 1)
         else rowStepsT str1 str2 maxDistance is (currRow', prevRow))"

definition rowLoopT :: "'a list \<Rightarrow> 'a list \<Rightarrow> rat option \<Rightarrow> rat + nat list \<times> nat list" where
  "rowLoopT s1 s2 maxDistance =
     rowStepsT s1 s2 maxDistance [1..<Suc (length s1)]
       (initRow (length s2), replicate (length s2 + 1) 0)"

definition levenshteinDistanceWithThreshold :: "'a list \<Rightarrow> 'a list \<Rightarrow> rat option \<Rightarrow> rat" where
  "levenshteinDistanceWithThreshold str1 str2 maxDistance =
     (let len1 = length str1; len2 = length str2 in
      if len1 = 0 then of_nat len2
      else if len2 = 0 then of_nat len1
      else if str1 = str2 then 0
      else if maxDistance \<noteq> None \<and> \<bar>of_nat len2 - of_nat len1\<bar> > the maxDistance
      then the maxDistance + 1
      else
        let (s1, s2) = (if len1 > len2 then (str2, str1) else (str1, str2))
        in case rowLoopT s1 s2 maxDistance of
             Inl r \<Rightarrow> r
           | Inr (prevRow, currRow) \<Rightarrow> of_nat (prevRow ! length s2))"

subsection \<open>Similarity scorer (levenshtein.ts)\<close>

definition jsRound :: "rat \<Rightarrow> rat" where
  "jsRound x = of_int \<lfloor>x + 1 / 2\<rfloor>"

definition calculateSimilarityWithThreshold :: "'a list \<Rightarrow> 'a list \<Rightarrow> rat option \<Rightarrow> rat" where
  "calculateSimilarityWithThreshold str1 str2 minSim =
     (if str1 = str2 then 100
      else if length str1 = 0 \<and> length str2 = 0 then 100
      else if length str1 = 0 \<or> length str2 = 0 then 0
      else
        let maxLength = max (length str1) (length str2);
            maxDistance = (case minSim of
                             None \<Rightarrow> None
                           | Some s \<Rightarrow>
                               Some (of_int \<lfloor>fl (of_nat maxLength * fl (1 - fl (s / 100)))\<rfloor>));
            distance = levenshteinDistanceWithThreshold str1 str2 maxDistance
        in if maxDistance \<noteq> None \<and> distance > the maxDistance then 0
           else fl (jsRound (fl (fl ((of_nat maxLength - distance) / of_nat maxLength) * 10000))
                    / 100))"

definition calculateSimilarity :: "'a list \<Rightarrow> 'a list \<Rightarrow> rat" where
  "calculateSimilarity str1 str2 =
     (if str1 = str2 then 100
      else if length str1 = 0 \<and> length str2 = 0 then 100
      else if length str1 = 0 \<or> length str2 = 0 then 0
      else
        let distance = levenshteinDistance str1 str2;
            maxLength = max (length str1) (length str2);
            similarity = fl (fl ((of_nat maxLength - of_nat distance) / of_nat maxLength) * 100)
        in fl (jsRound (fl (similarity * 100)) / 100))"

subsection \<open>Character-frequency filter (levenshtein.ts)\<close>

text \<open>
  A \<open>Map<string, number>\<close> is an association list in insertion order; \<open>freq.get(c) || 0\<close>
  is \<open>freqGet\<close> and \<open>freq.set\<close> keeps the position of a key that is already present.
\<close>

definition freqGet :: "('a \<times> nat) list \<Rightarrow> 'a \<Rightarrow> nat" where
  "freqGet freq c = (case map_of freq c of None \<Rightarrow> 0 | Some n \<Rightarrow> n)"

fun freqSet :: "('a \<times> nat) list \<Rightarrow> 'a \<Rightarrow> nat \<Rightarrow> ('a \<times> nat) list" where
  "freqSet [] c n = [(c, n)]"
| "freqSet ((k, v) # freq) c n = (if k = c then (k, n) # freq else (k, v) # freqSet freq c n)"

definition countChars :: "'a list \<Rightarrow> ('a \<times> nat) list" where
  "countChars str = fold (\<lambda>c freq. freqSet freq c (freqGet freq c + 1)) str []"

definition failsFrequencyCheck :: "'a list \<Rightarrow> 'a list \<Rightarrow> rat \<Rightarrow> bool" where
  "failsFrequencyCheck str1 str2 maxDistance =
     (let freq1 = countChars str1;
          freq2 = countChars str2;
          allChars = remdups (map fst freq1 @ map fst freq2);
          minEdits = fold (\<lambda>c minEdits.
                        minEdits + nat \<bar>int (freqGet freq1 c) - int (freqGet freq2 c)\<bar>) allChars 0
      in of_nat minEdits / 2 > maxDistance)"

subsection \<open>Data model (functionExtractor.ts, comparator.ts, worker.ts)\<close>

text \<open>
  \<open>ExtractedFunction\<close> has every field of \<open>FunctionReference\<close> and two more, so it is the
  record extension; the selectors \<open>name\<close>, \<open>filePath\<close>, \<open>startLine\<close> and \<open>endLine\<close> read both.
\<close>

record FunctionReference =
  name :: string
  filePath :: string
  startLine :: int
  endLine :: int

record ExtractedFunction = FunctionReference +
  code :: string
  normalizedCode :: string

record WorkerResult =
  idx1 :: nat
  idx2 :: nat
  normalizedScore :: rat
  rawScore :: rat
  lines1 :: int
  lines2 :: int

record SimilarityResult =
  function1 :: FunctionReference
  function2 :: FunctionReference
  similarityScore :: rat
  normalizedScore :: rat
  lines1 :: int
  lines2 :: int

text \<open>Every option is optional in the source; \<open>None\<close> is an absent field.\<close>

record ComparisonOptions =
  minSimilarity :: "rat option"
  minLines :: "int option"
  normalizeOpt :: "bool option"
  excludeSelf :: "bool option"

text \<open>The object literal that both drivers build for \<open>function1\<close> and \<open>function2\<close>.\<close>

definition functionReference :: "ExtractedFunction \<Rightarrow> FunctionReference" where
  "functionReference f =
     \<lparr>name = name f, filePath = filePath f, startLine = startLine f, endLine = endLine f\<rparr>"

text \<open>The \<open>minLines\<close> pre-filter, written the same way in all three entry points.\<close>

definition filterByLines :: "int \<Rightarrow> ExtractedFunction list \<Rightarrow> ExtractedFunction list" where
  "filterByLines minLines' functions =
     (if minLines' > 0
      then filter (\<lambda>f. endLine f - startLine f + 1 \<ge> minLines') functions
      else functions)"

definition sortByScore :: "SimilarityResult list \<Rightarrow> SimilarityResult list" where
  "sortByScore results = sort_key (\<lambda>r. - SimilarityResult.normalizedScore r) results"

subsection \<open>Sequential driver (comparator.ts)\<close>

text \<open>
  The body of the inner loop of \<open>compareAll\<close> for the pair \<open>(i, j)\<close>: \<open>Some r\<close> when the
  iteration pushes \<open>r\<close>, \<open>None\<close> when it leaves \<open>results\<close> alone. The ratio of two zero
  lengths is NaN in the source and NaN compares false, hence the guard \<open>maxLength \<noteq> 0\<close>.
\<close>

definition comparePair ::
  "rat \<Rightarrow> bool \<Rightarrow> bool \<Rightarrow> ExtractedFunction list \<Rightarrow> nat \<Rightarrow> nat \<Rightarrow> SimilarityResult option" where
  "comparePair minSim normalize' exclSelf filteredFunctions i j =
     (let func1 = filteredFunctions ! i;
          lines1' = endLine func1 - startLine func1 + 1;
          norm1 = (if normalize' then normalizedCode func1 else code func1);
          func2 = filteredFunctions ! j;
          lines2' = endLine func2 - startLine func2 + 1
      in if exclSelf \<and> filePath func1 = filePath func2 \<and> startLine func1 = startLine func2
         then None
         else
           let norm2 = (if normalize' then normalizedCode func2 else code func2);
               len1 = length norm1;
               len2 = length norm2;
               maxLength = max len1 len2;
               minLength = min len1 len2
           in if maxLength \<noteq> 0 \<and> fl (fl (of_nat minLength / of_nat maxLength) * 100) < minSim
              then None
              else
                let maxAllowedDiff = \<lfloor>fl (of_nat maxLength * fl (1 - fl (minSim / 100)))\<rfloor>
                in if \<bar>int len1 - int len2\<bar> > maxAllowedDiff then None
                   else if minSim > 0 \<and> failsFrequencyCheck norm1 norm2 (of_int maxAllowedDiff)
                   then None
                   else
                     let normalizedScore' =
                           calculateSimilarityWithThreshold norm1 norm2 (Some minSim)
                     in if normalizedScore' \<ge> minSim
                        then
                          let rawScore' =
                                (if normalize'
                                 then calculateSimilarityWithThreshold
                                        (code (filteredFunctions ! i))
                                        (code (filteredFunctions ! j)) (Some minSim)
                                 else normalizedScore')
                          in Some \<lparr>function1 = functionReference func1,
                                   function2 = functionReference func2,
                                   similarityScore = rawScore',
                                   normalizedScore = normalizedScore',
                                   lines1 = lines1', lines2 = lines2'\<rparr>
                        else None)"

definition pushResult :: "'r option \<Rightarrow> 'r list \<Rightarrow> 'r list" where
  "pushResult r results = (case r of None \<Rightarrow> results | Some x \<Rightarrow> results @ [x])"

definition compareAll :: "ExtractedFunction list \<Rightarrow> ComparisonOptions \<Rightarrow> SimilarityResult list" where
  "compareAll functions options =
     (let minSim = (case minSimilarity options of None \<Rightarrow> 0 | Some s \<Rightarrow> s);
          minLines' = (case minLines options of None \<Rightarrow> 0 | Some n \<Rightarrow> n);
          normalize' = (case normalizeOpt options of None \<Rightarrow> True | Some b \<Rightarrow> b);
          exclSelf = (case excludeSelf options of None \<Rightarrow> True | Some b \<Rightarrow> b);
          filteredFunctions = filterByLines minLines' functions;
          results =
            fold (\<lambda>i results.
                    fold (\<lambda>j results.
                            pushResult (comparePair minSim normalize' exclSelf filteredFunctions i j) results)
                      [i + 1..<length filteredFunctions] results)
              [0..<length filteredFunctions] []
      in sortByScore results)"

definition compareOne ::
  "ExtractedFunction \<Rightarrow> ExtractedFunction list \<Rightarrow> ComparisonOptions \<Rightarrow> SimilarityResult list" where
  "compareOne targetFunction allFunctions options =
     (let minSim = (case minSimilarity options of None \<Rightarrow> 0 | Some s \<Rightarrow> s);
          minLines' = (case minLines options of None \<Rightarrow> 0 | Some n \<Rightarrow> n);
          normalize' = (case normalizeOpt options of None \<Rightarrow> True | Some b \<Rightarrow> b);
          lines1' = endLine targetFunction - startLine targetFunction + 1
      in if minLines' > 0 \<and> lines1' < minLines' then []
         else
           sortByScore
             (fold (\<lambda>func results.
                      let lines2' = endLine func - startLine func + 1
                      in if minLines' > 0 \<and> lines2' < minLines' then results
                         else if filePath func = filePath targetFunction
                                 \<and> startLine func = startLine targetFunction
                         then results
                         else
                           let normalizedScore' =
                                 (if normalize'
                                  then calculateSimilarity (normalizedCode targetFunction)
                                         (normalizedCode func)
                                  else calculateSimilarity (code targetFunction) (code func));
                               rawScore' = calculateSimilarity (code targetFunction) (code func)
                           in if normalizedScore' \<ge> minSim
                              then results @
                                   [\<lparr>function1 = functionReference targetFunction,
                                     function2 = functionReference func,
                                     similarityScore = rawScore',
                                     normalizedScore = normalizedScore',
                                     lines1 = lines1', lines2 = lines2'\<rparr>]
                              else results)
                allFunctions []))"

subsection \<open>Worker and parallel coordinator (worker.ts, comparatorParallel.ts)\<close>

text \<open>
  The body of the worker's inner loop. It has no identity test: the worker data carries
  no \<open>excludeSelf\<close> field.
\<close>

definition workerPair ::
  "rat \<Rightarrow> bool \<Rightarrow> ExtractedFunction list \<Rightarrow> nat \<Rightarrow> nat \<Rightarrow> WorkerResult option" where
  "workerPair minSim normalize' functions i j =
     (let func1 = functions ! i;
          norm1 = (if normalize' then normalizedCode func1 else code func1);
          lines1' = endLine func1 - startLine func1 + 1;
          func2 = functions ! j;
          norm2 = (if normalize' then normalizedCode func2 else code func2);
          lines2' = endLine func2 - startLine func2 + 1;
          len1 = length norm1;
          len2 = length norm2;
          maxLength = max len1 len2;
          minLength = min len1 len2
      in if maxLength \<noteq> 0 \<and> fl (fl (of_nat minLength / of_nat maxLength) * 100) < minSim then None
         else
           let maxAllowedDiff = \<lfloor>fl (of_nat maxLength * fl (1 - fl (minSim / 100)))\<rfloor>
           in if \<bar>int len1 - int len2\<bar> > maxAllowedDiff then None
              else if minSim > 0 \<and> failsFrequencyCheck norm1 norm2 (of_int maxAllowedDiff)
              then None
              else
                let normalizedScore' = calculateSimilarityWithThreshold norm1 norm2 (Some minSim)
                in if normalizedScore' \<ge> minSim
                   then
                     let rawScore' =
                           (if normalize'
                            then calculateSimilarityWithThreshold (code func1) (code func2)
                                   (Some minSim)
                            else normalizedScore')
                     in Some \<lparr>idx1 = i, idx2 = j, normalizedScore = normalizedScore',
                              rawScore = rawScore', lines1 = lines1', lines2 = lines2'\<rparr>
                   else None)"

definition worker :: "ExtractedFunction list \<Rightarrow> nat \<Rightarrow> nat \<Rightarrow> rat \<Rightarrow> bool \<Rightarrow> WorkerResult list" where
  "worker functions startIdx endIdx minSim normalize' =
     fold (\<lambda>i results.
             fold (\<lambda>j results. pushResult (workerPair minSim normalize' functions i j) results)
               [i + 1..<length functions] results)
       [startIdx..<endIdx] []"

text \<open>
  The dispatch loop over \<open>w\<close>, with its \<open>break\<close>; \<open>Promise.all\<close> returns the workers' lists
  in dispatch order, whatever the order in which the workers finish.
\<close>

fun dispatch :: "ExtractedFunction list \<Rightarrow> nat \<Rightarrow> rat \<Rightarrow> bool \<Rightarrow> nat list \<Rightarrow> WorkerResult list list" where
  "dispatch filteredFunctions chunkSize minSim normalize' [] = []"
| "dispatch filteredFunctions chunkSize minSim normalize' (w # ws) =
     (let startIdx = w * chunkSize;
          endIdx = min ((w + 1) * chunkSize) (length filteredFunctions)
      in if startIdx \<ge> length filteredFunctions then []
         else worker filteredFunctions startIdx endIdx minSim normalize'
              # dispatch filteredFunctions chunkSize minSim normalize' ws)"

definition toSimilarityResult :: "ExtractedFunction list \<Rightarrow> WorkerResult \<Rightarrow> SimilarityResult" where
  "toSimilarityResult filteredFunctions result =
     (let func1 = filteredFunctions ! idx1 result;
          func2 = filteredFunctions ! idx2 result
      in \<lparr>function1 = functionReference func1,
          function2 = functionReference func2,
          similarityScore = rawScore result,
          normalizedScore = WorkerResult.normalizedScore result,
          lines1 = WorkerResult.lines1 result,
          lines2 = WorkerResult.lines2 result\<rparr>)"

text \<open>\<open>numCores\<close> is \<open>os.cpus().length\<close>, a parameter of the model.\<close>

definition compareAllParallel ::
  "nat \<Rightarrow> ExtractedFunction list \<Rightarrow> ComparisonOptions \<Rightarrow> SimilarityResult list" where
  "compareAllParallel numCores functions options =
     (let minSim = (case minSimilarity options of None \<Rightarrow> 0 | Some s \<Rightarrow> s);
          minLines' = (case minLines options of None \<Rightarrow> 0 | Some n \<Rightarrow> n);
          normalize' = (case normalizeOpt options of None \<Rightarrow> True | Some b \<Rightarrow> b);
          filteredFunctions = filterByLines minLines' functions
      in if length filteredFunctions < 100 then compareAll filteredFunctions options
         else
           let numWorkers = nat (max 1 (min (int numCores - 1) 8));
               chunkSize = nat \<lceil>(of_nat (length filteredFunctions) :: rat) / of_nat numWorkers\<rceil>;
               allWorkerResults = dispatch filteredFunctions chunkSize minSim normalize' [0..<numWorkers];
               mergedResults = map (toSimilarityResult filteredFunctions) (concat allWorkerResults)
           in sortByScore mergedResults)"

subsection \<open>The pruning filters on their own\<close>

text \<open>
  The three filters are inline in the inner loops of \<open>compareAll\<close> and of the worker. To state
  what each one does they are written out once more here, in the order of the source, as
  predicates on the two compared texts; \<open>comparePair_filters\<close> and \<open>workerPair_filters\<close> below
  prove that the loop bodies apply exactly these tests.
\<close>

definition ratioFilterRejects :: "'a list \<Rightarrow> 'a list \<Rightarrow> rat \<Rightarrow> bool" where
  "ratioFilterRejects norm1 norm2 minSim =
     (let len1 = length norm1;
          len2 = length norm2;
          maxLength = max len1 len2;
          minLength = min len1 len2
      in maxLength \<noteq> 0 \<and> fl (fl (of_nat minLength / of_nat maxLength) * 100) < minSim)"

definition lengthDiffFilterRejects :: "'a list \<Rightarrow> 'a list \<Rightarrow> rat \<Rightarrow> bool" where
  "lengthDiffFilterRejects norm1 norm2 minSim =
     (let len1 = length norm1;
          len2 = length norm2;
          maxLength = max len1 len2;
          maxAllowedDiff = \<lfloor>fl (of_nat maxLength * fl (1 - fl (minSim / 100)))\<rfloor>
      in \<bar>int len1 - int len2\<bar> > maxAllowedDiff)"

definition frequencyFilterRejects :: "'a list \<Rightarrow> 'a list \<Rightarrow> rat \<Rightarrow> bool" where
  "frequencyFilterRejects norm1 norm2 minSim =
     (let len1 = length norm1;
          len2 = length norm2;
          maxLength = max len1 len2;
          maxAllowedDiff = \<lfloor>fl (of_nat maxLength * fl (1 - fl (minSim / 100)))\<rfloor>
      in minSim > 0 \<and> failsFrequencyCheck norm1 norm2 (of_int maxAllowedDiff))"

subsection \<open>Vocabulary for the statements about the drivers\<close>

text \<open>
  Names for what the drivers compute inline: the options with their defaults, the line count
  and the identity test of a fragment, the text that is compared, the test a pair has to pass
  to be emitted, the result emitted for it, and the pairs \<open>(i, j)\<close> with \<open>i < j < n\<close> in the
  order of the two nested loops. \<open>pairScan\<close> lists the results of the qualifying pairs in that
  order; the theorems relate the drivers to it.
\<close>

definition optMinSimilarity :: "ComparisonOptions \<Rightarrow> rat" where
  "optMinSimilarity options = (case minSimilarity options of None \<Rightarrow> 0 | Some s \<Rightarrow> s)"

definition optMinLines :: "ComparisonOptions \<Rightarrow> int" where
  "optMinLines options = (case minLines options of None \<Rightarrow> 0 | Some n \<Rightarrow> n)"

definition optNormalize :: "ComparisonOptions \<Rightarrow> bool" where
  "optNormalize options = (case normalizeOpt options of None \<Rightarrow> True | Some b \<Rightarrow> b)"

definition optExcludeSelf :: "ComparisonOptions \<Rightarrow> bool" where
  "optExcludeSelf options = (case excludeSelf options of None \<Rightarrow> True | Some b \<Rightarrow> b)"

definition lineCount :: "'a FunctionReference_scheme \<Rightarrow> int" where
  "lineCount f = endLine f - startLine f + 1"

definition sameIdentity :: "'a FunctionReference_scheme \<Rightarrow> 'b FunctionReference_scheme \<Rightarrow> bool" where
  "sameIdentity f g \<longleftrightarrow> filePath f = filePath g \<and> startLine f = startLine g"

definition comparedText :: "bool \<Rightarrow> ExtractedFunction \<Rightarrow> string" where
  "comparedText normalize' f = (if normalize' then normalizedCode f else code f)"

definition qualifies :: "rat \<Rightarrow> bool \<Rightarrow> ExtractedFunction \<Rightarrow> ExtractedFunction \<Rightarrow> bool" where
  "qualifies minSim normalize' func1 func2 \<longleftrightarrow>
     \<not> ratioFilterRejects (comparedText normalize' func1) (comparedText normalize' func2) minSim
     \<and> \<not> lengthDiffFilterRejects (comparedText normalize' func1) (comparedText normalize' func2) minSim
     \<and> \<not> frequencyFilterRejects (comparedText normalize' func1) (comparedText normalize' func2) minSim
     \<and> calculateSimilarityWithThreshold (comparedText normalize' func1)
           (comparedText normalize' func2) (Some minSim) \<ge> minSim"

definition emittedResult ::
  "rat \<Rightarrow> bool \<Rightarrow> ExtractedFunction \<Rightarrow> ExtractedFunction \<Rightarrow> SimilarityResult" where
  "emittedResult minSim normalize' func1 func2 =
     \<lparr>function1 = functionReference func1,
      function2 = functionReference func2,
      similarityScore = calculateSimilarityWithThreshold (code func1) (code func2) (Some minSim),
      normalizedScore = calculateSimilarityWithThreshold (comparedText normalize' func1)
                          (comparedText normalize' func2) (Some minSim),
      lines1 = lineCount func1, lines2 = lineCount func2\<rparr>"

definition pairOrder :: "nat \<Rightarrow> (nat \<times> nat) list" where
  "pairOrder n = concat (map (\<lambda>i. map (Pair i) [i + 1..<n]) [0..<n])"

definition pairScan :: "bool \<Rightarrow> rat \<Rightarrow> bool \<Rightarrow> ExtractedFunction list \<Rightarrow> SimilarityResult list" where
  "pairScan exclSelf minSim normalize' fs =
     map (\<lambda>(i, j). emittedResult minSim normalize' (fs ! i) (fs ! j))
       (filter (\<lambda>(i, j). \<not> (exclSelf \<and> sameIdentity (fs ! i) (fs ! j))
                          \<and> qualifies minSim normalize' (fs ! i) (fs ! j))
          (pairOrder (length fs)))"

definition oneResult :: "bool \<Rightarrow> ExtractedFunction \<Rightarrow> ExtractedFunction \<Rightarrow> SimilarityResult" where
  "oneResult normalize' targetFunction func =
     \<lparr>function1 = functionReference targetFunction,
      function2 = functionReference func,
      similarityScore = calculateSimilarity (code targetFunction) (code func),
      normalizedScore = calculateSimilarity (comparedText normalize' targetFunction)
                          (comparedText normalize' func),
      lines1 = lineCount targetFunction, lines2 = lineCount func\<rparr>"

subsection \<open>Example inputs\<close>

text \<open>
  A class method written on one line gives the extractor two function nodes that start on the
  same line of the same file, the method definition and the function expression that is its
  value: two fragments that share identity. \<open>exampleFragments\<close> puts such a pair in front of 98
  other functions of the file, one per line, which makes 100 fragments, the size from which
  \<open>compareAllParallel\<close> dispatches workers.
\<close>

definition exampleMethod :: ExtractedFunction where
  "exampleMethod =
     \<lparr>name = ''run'', filePath = ''a.ts'', startLine = 1, endLine = 1,
      code = ''run(){}'', normalizedCode = ''run(){}''\<rparr>"

definition exampleBody :: ExtractedFunction where
  "exampleBody =
     \<lparr>name = ''anonymous'', filePath = ''a.ts'', startLine = 1, endLine = 1,
      code = ''(){}'', normalizedCode = ''(){}''\<rparr>"

definition exampleOther :: "nat \<Rightarrow> ExtractedFunction" where
  "exampleOther k =
     \<lparr>name = ''f'', filePath = ''a.ts'', startLine = int k + 1, endLine = int k + 1,
      code = ''function f(){}'', normalizedCode = ''function f(){}''\<rparr>"

definition exampleFragments :: "ExtractedFunction list" where
  "exampleFragments = exampleMethod # exampleBody # map exampleOther [2..<100]"

definition defaultOptions :: ComparisonOptions where
  "defaultOptions = \<lparr>minSimilarity = None, minLines = None, normalizeOpt = None, excludeSelf = None\<rparr>"

text \<open>A three-line fragment and two ten-line fragments, for the \<open>minLines\<close> filter.\<close>

definition shortFragment :: ExtractedFunction where
  "shortFragment =
     \<lparr>name = ''s'', filePath = ''b.ts'', startLine = 1, endLine = 3,
      code = ''function s(){}'', normalizedCode = ''function s(){}''\<rparr>"

definition longFragment :: "int \<Rightarrow> ExtractedFunction" where
  "longFragment l =
     \<lparr>name = ''t'', filePath = ''b.ts'', startLine = l, endLine = l + 9,
      code = ''function t(){}'', normalizedCode = ''function t(){}''\<rparr>"

text \<open>Two fragments of one line each, for the filters at the threshold.\<close>

definition nearFragment :: "string \<Rightarrow> int \<Rightarrow> ExtractedFunction" where
  "nearFragment body l =
     \<lparr>name = ''g'', filePath = ''c.ts'', startLine = l, endLine = l,
      code = body, normalizedCode = body\<rparr>"

subsection \<open>What the edit distance is\<close>

text \<open>
  The specification of the core, in its own words: one edit inserts, deletes or substitutes a
  single element anywhere in the sequence, and \<open>edit_steps n xs ys\<close> says that \<open>n\<close> edits in
  a row turn \<open>xs\<close> into \<open>ys\<close>. The edit distance is the least such \<open>n\<close>.
\<close>

inductive edit_step :: "'a list \<Rightarrow> 'a list \<Rightarrow> bool" where
  insertion: "edit_step (p @ s) (p @ a # s)"
| deletion: "edit_step (p @ a # s) (p @ s)"
| substitution: "edit_step (p @ a # s) (p @ b # s)"

inductive edit_steps :: "nat \<Rightarrow> 'a list \<Rightarrow> 'a list \<Rightarrow> bool" where
  no_edit: "edit_steps 0 xs xs"
| one_more: "edit_step xs ys \<Longrightarrow> edit_steps n ys zs \<Longrightarrow> edit_steps (Suc n) xs zs"

definition is_edit_distance :: "nat \<Rightarrow> 'a list \<Rightarrow> 'a list \<Rightarrow> bool" where
  "is_edit_distance d xs ys \<longleftrightarrow> edit_steps d xs ys \<and> (\<forall>n. edit_steps n xs ys \<longrightarrow> d \<le> n)"

text \<open>
  The textbook recurrence, used in the proofs as the link between the rows of the dynamic
  program and \<open>is_edit_distance\<close>.
\<close>

fun ed :: "'a list \<Rightarrow> 'a list \<Rightarrow> nat" where
  "ed [] ys = length ys"
| "ed xs [] = length xs"
| "ed (x # xs) (y # ys) =
     min (ed xs (y # ys) + 1) (min (ed (x # xs) ys + 1) (ed xs ys + (if x = y then 0 else 1)))"

text \<open>Row \<open>i\<close> of the table of the dynamic program: the first \<open>i\<close> elements of \<open>s1\<close> against
  every prefix of \<open>s2\<close>.\<close>

definition edRow :: "'a list \<Rightarrow> 'a list \<Rightarrow> nat \<Rightarrow> nat list" where
  "edRow s1 s2 i = map (\<lambda>j. ed (take i s1) (take j s2)) [0..<Suc (length s2)]"

section \<open>The edit distance and its recurrence\<close>

lemma ed_Nil2 [simp]: "ed xs [] = length xs"
  by (cases xs) simp_all

lemma ed_refl [simp]: "ed xs xs = 0"
  by (induction xs) simp_all

lemma ed_sym: "ed xs ys = ed ys xs"
  by (induction xs ys rule: ed.induct) (simp_all add: min.commute min.left_commute eq_commute)

lemma ed_Cons1_le: "ed (x # xs) ys \<le> Suc (ed xs ys)"
  by (cases ys) simp_all

lemma ed_Cons2_le: "ed xs (y # ys) \<le> Suc (ed xs ys)"
  by (cases xs) simp_all

lemma ed_drop1_le: "ed xs ys \<le> Suc (ed (x # xs) ys)"
proof (induction ys arbitrary: xs)
  case Nil
  show ?case by simp
next
  case (Cons y ys)
  have a: "ed xs (y # ys) \<le> Suc (ed xs ys)" by (rule ed_Cons2_le)
  have b: "ed xs ys \<le> Suc (ed (x # xs) ys)" by (rule Cons.IH)
  show ?case using a b by (simp add: min_def)
qed

lemma ed_subst_le: "ed (a # xs) ys \<le> Suc (ed (b # xs) ys)"
proof (induction ys)
  case Nil
  show ?case by simp
next
  case (Cons y ys)
  have "ed (a # xs) (y # ys) \<le> Suc (ed (a # xs) ys)" by (rule ed_Cons2_le)
  moreover have "ed (a # xs) (y # ys) \<le> Suc (ed xs ys)" by (simp add: min_def)
  moreover have "ed (a # xs) (y # ys) \<le> Suc (ed xs (y # ys))" by (simp add: min_def)
  ultimately show ?case using Cons.IH by (simp add: min_def split: if_splits)
qed

lemma ed_ctx_le:
  assumes "\<And>zs. ed xs zs \<le> Suc (ed ys zs)"
  shows "ed (c # xs) zs \<le> Suc (ed (c # ys) zs)"
proof (induction zs)
  case Nil
  from assms [of "[]"] show ?case by simp
next
  case (Cons z zs)
  have 1: "ed (c # xs) (z # zs) \<le> Suc (ed xs (z # zs))" by (simp add: min_def)
  have 2: "ed (c # xs) (z # zs) \<le> Suc (ed (c # xs) zs)" by (simp add: min_def)
  have 3: "ed (c # xs) (z # zs) \<le> ed xs zs + (if c = z then 0 else 1)" by (simp add: min_def)
  show ?case using 1 2 3 assms [of "z # zs"] assms [of zs] Cons.IH
    by (simp add: min_def split: if_splits)
qed

lemma ed_prefix_le:
  assumes "\<And>zs. ed xs zs \<le> Suc (ed ys zs)"
  shows "ed (p @ xs) zs \<le> Suc (ed (p @ ys) zs)"
proof (induction p arbitrary: zs)
  case Nil
  show ?case using assms by simp
next
  case (Cons c p)
  show ?case using ed_ctx_le [of "p @ xs" "p @ ys" c zs] Cons.IH by simp
qed

lemma edit_step_ed: "edit_step xs ys \<Longrightarrow> ed xs zs \<le> Suc (ed ys zs)"
proof (induction rule: edit_step.induct)
  case (insertion p s a)
  show ?case by (rule ed_prefix_le) (rule ed_drop1_le)
next
  case (deletion p a s)
  show ?case by (rule ed_prefix_le) (rule ed_Cons1_le)
next
  case (substitution p a s b)
  show ?case by (rule ed_prefix_le) (rule ed_subst_le)
qed

lemma edit_steps_lower: "edit_steps n xs ys \<Longrightarrow> ed xs ys \<le> n"
proof (induction rule: edit_steps.induct)
  case (no_edit xs)
  show ?case by simp
next
  case (one_more xs ys n zs)
  from edit_step_ed [OF one_more.hyps(1), of zs] one_more.IH show ?case by simp
qed

lemma edit_step_Cons: "edit_step xs ys \<Longrightarrow> edit_step (c # xs) (c # ys)"
proof (induction rule: edit_step.induct)
  case (insertion p s a)
  show ?case using edit_step.insertion [of "c # p" s a] by simp
next
  case (deletion p a s)
  show ?case using edit_step.deletion [of "c # p" a s] by simp
next
  case (substitution p a s b)
  show ?case using edit_step.substitution [of "c # p" a s b] by simp
qed

lemma edit_steps_Cons: "edit_steps n xs ys \<Longrightarrow> edit_steps n (c # xs) (c # ys)"
  by (induction rule: edit_steps.induct) (auto intro: edit_steps.intros edit_step_Cons)

lemma edit_step_ins_hd: "edit_step xs (a # xs)"
  using edit_step.insertion [of "[]" xs a] by simp

lemma edit_step_del_hd: "edit_step (a # xs) xs"
  using edit_step.deletion [of "[]" a xs] by simp

lemma edit_step_sub_hd: "edit_step (a # xs) (b # xs)"
  using edit_step.substitution [of "[]" a xs b] by simp

lemma edit_steps_trans:
  "edit_steps m xs ys \<Longrightarrow> edit_steps n ys zs \<Longrightarrow> edit_steps (m + n) xs zs"
  by (induction rule: edit_steps.induct) (auto intro: edit_steps.intros)

lemma edit_steps_snoc_step:
  "edit_steps n xs ys \<Longrightarrow> edit_step ys zs \<Longrightarrow> edit_steps (Suc n) xs zs"
  using edit_steps_trans [of n xs ys 1 zs] by (auto intro: edit_steps.intros)

lemma edit_steps_ed: "edit_steps (ed xs ys) xs ys"
proof (induction xs ys rule: ed.induct)
  case (1 ys)
  show ?case
  proof (induction ys)
    case Nil
    show ?case by (simp add: edit_steps.no_edit)
  next
    case (Cons y ys)
    have "edit_steps (Suc (length ys)) [] (y # ys)"
      using edit_steps_snoc_step [OF _ edit_step_ins_hd] Cons by simp
    then show ?case by simp
  qed
next
  case (2 x xs)
  have "edit_steps (length zs) zs []" for zs :: "'a list"
  proof (induction zs)
    case Nil
    show ?case by (simp add: edit_steps.no_edit)
  next
    case (Cons a zs)
    show ?case using edit_steps.one_more [OF edit_step_del_hd Cons] by simp
  qed
  from this [of "x # xs"] show ?case by simp
next
  case (3 x xs y ys)
  let ?d = "ed (x # xs) (y # ys)"
  have "?d = Suc (ed xs (y # ys)) \<or> ?d = Suc (ed (x # xs) ys)
      \<or> (x = y \<and> ?d = ed xs ys) \<or> (x \<noteq> y \<and> ?d = Suc (ed xs ys))"
    by (cases "x = y") (simp_all add: min_def)
  then consider (del) "?d = Suc (ed xs (y # ys))" | (ins) "?d = Suc (ed (x # xs) ys)"
    | (keep) "x = y" "?d = ed xs ys" | (sub) "x \<noteq> y" "?d = Suc (ed xs ys)"
    by blast
  then show ?case
  proof cases
    case del
    then show ?thesis using edit_steps.one_more [OF edit_step_del_hd "3.IH"(1)] by simp
  next
    case ins
    then show ?thesis using edit_steps_snoc_step [OF "3.IH"(2) edit_step_ins_hd] by simp
  next
    case keep
    then show ?thesis using edit_steps_Cons [OF "3.IH"(3), of y] by simp
  next
    case sub
    then show ?thesis
      using edit_steps.one_more [OF edit_step_sub_hd edit_steps_Cons [OF "3.IH"(3)], of x y] by simp
  qed
qed

lemma ed_is_edit_distance: "is_edit_distance (ed xs ys) xs ys"
  unfolding is_edit_distance_def using edit_steps_ed edit_steps_lower by blast

lemma is_edit_distance_unique: "is_edit_distance d xs ys \<Longrightarrow> d = ed xs ys"
  unfolding is_edit_distance_def using edit_steps_ed [of xs ys] edit_steps_lower [of _ xs ys]
  by (meson le_antisym)

lemma edit_step_rev: "edit_step xs ys \<Longrightarrow> edit_step (rev xs) (rev ys)"
proof (induction rule: edit_step.induct)
  case (insertion p s a)
  show ?case using edit_step.insertion [of "rev s" "rev p" a] by simp
next
  case (deletion p a s)
  show ?case using edit_step.deletion [of "rev s" a "rev p"] by simp
next
  case (substitution p a s b)
  show ?case using edit_step.substitution [of "rev s" a "rev p" b] by simp
qed

lemma edit_steps_rev: "edit_steps n xs ys \<Longrightarrow> edit_steps n (rev xs) (rev ys)"
  by (induction rule: edit_steps.induct) (auto intro: edit_steps.intros edit_step_rev)

lemma ed_rev_le: "ed (rev xs) (rev ys) \<le> ed xs ys"
  by (rule edit_steps_lower) (rule edit_steps_rev, rule edit_steps_ed)

lemma ed_rev: "ed (rev xs) (rev ys) = ed xs ys"
  using ed_rev_le [of xs ys] ed_rev_le [of "rev xs" "rev ys"] by simp

lemma ed_snoc:
  "ed (xs @ [x]) (ys @ [y]) =
     min (ed xs (ys @ [y]) + 1) (min (ed (xs @ [x]) ys + 1) (ed xs ys + (if x = y then 0 else 1)))"
proof -
  have "ed (xs @ [x]) (ys @ [y]) = ed (x # rev xs) (y # rev ys)"
    using ed_rev [of "xs @ [x]" "ys @ [y]"] by simp
  also have "\<dots> = min (ed (rev xs) (y # rev ys) + 1)
      (min (ed (x # rev xs) (rev ys) + 1) (ed (rev xs) (rev ys) + (if x = y then 0 else 1)))"
    by simp
  also have "ed (rev xs) (y # rev ys) = ed xs (ys @ [y])"
    using ed_rev [of xs "ys @ [y]"] by simp
  also have "ed (x # rev xs) (rev ys) = ed (xs @ [x]) ys"
    using ed_rev [of "xs @ [x]" ys] by simp
  also have "ed (rev xs) (rev ys) = ed xs ys"
    by (rule ed_rev)
  finally show ?thesis .
qed

lemma ed_length_diff: "length ys - length xs \<le> ed xs ys" "length xs - length ys \<le> ed xs ys"
  by (induction xs ys rule: ed.induct) (auto simp: min_def)

lemma ed_le_max: "ed xs ys \<le> max (length xs) (length ys)"
  by (induction xs ys rule: ed.induct) (auto simp: min_def max_def)

section \<open>The dynamic program computes the edit distance\<close>

lemma ed_take_Suc:
  assumes "i < length s1" "j < length s2"
  shows "ed (take (Suc i) s1) (take (Suc j) s2) =
     min (ed (take i s1) (take (Suc j) s2) + 1)
       (min (ed (take (Suc i) s1) (take j s2) + 1)
            (ed (take i s1) (take j s2) + (if s1 ! i = s2 ! j then 0 else 1)))"
  using assms ed_snoc [of "take i s1" "s1 ! i" "take j s2" "s2 ! j"]
  by (simp add: take_Suc_conv_app_nth)

lemma initRow_eq: "initRow n = [0..<Suc n]"
proof -
  have "k \<le> Suc n \<Longrightarrow>
     fold (\<lambda>j row. row[j := j]) [0..<k] (replicate (n + 1) 0) = [0..<k] @ replicate (n + 1 - k) 0" for k
  proof (induction k)
    case 0
    show ?case by simp
  next
    case (Suc k)
    then have "fold (\<lambda>j row. row[j := j]) [0..<Suc k] (replicate (n + 1) 0)
        = ([0..<k] @ replicate (n + 1 - k) 0)[k := k]" by simp
    also have "\<dots> = [0..<k] @ (replicate (n + 1 - k) 0)[0 := k]"
      by (simp add: list_update_append)
    also have "replicate (n + 1 - k) (0::nat) = 0 # replicate (n - k) 0"
      using Suc.prems by (simp add: Suc_diff_le flip: replicate_Suc)
    finally show ?case by simp
  qed
  from this [of "Suc n"] show ?thesis by (simp add: initRow_def)
qed

lemma length_edRow [simp]: "length (edRow s1 s2 i) = Suc (length s2)"
  by (simp add: edRow_def)

lemma nth_edRow: "j \<le> length s2 \<Longrightarrow> edRow s1 s2 i ! j = ed (take i s1) (take j s2)"
  unfolding edRow_def by (simp add: nth_append less_Suc_eq_le del: upt_Suc)

lemma edRow_0: "edRow s1 s2 0 = [0..<Suc (length s2)]"
  unfolding edRow_def by (rule nth_equalityI) (simp_all add: nth_append less_Suc_eq_le del: upt_Suc)

lemma fillRow_prefix:
  assumes i: "i < length s1" and len: "length currRow = Suc (length s2)" and k: "k \<le> length s2"
  shows "length (fold (cellUpdate s1 s2 (Suc i) (edRow s1 s2 i)) [1..<Suc k] (currRow[0 := Suc i]))
           = Suc (length s2)
       \<and> (\<forall>j\<le>k. fold (cellUpdate s1 s2 (Suc i) (edRow s1 s2 i)) [1..<Suc k] (currRow[0 := Suc i]) ! j
              = ed (take (Suc i) s1) (take j s2))"
  using k
proof (induction k)
  case 0
  show ?case using len i by simp
next
  case (Suc k)
  let ?r = "fold (cellUpdate s1 s2 (Suc i) (edRow s1 s2 i)) [1..<Suc k] (currRow[0 := Suc i])"
  from Suc have IH: "length ?r = Suc (length s2)"
    "\<And>j. j \<le> k \<Longrightarrow> ?r ! j = ed (take (Suc i) s1) (take j s2)" by simp_all
  have k: "k < length s2" using Suc.prems by simp
  have step: "fold (cellUpdate s1 s2 (Suc i) (edRow s1 s2 i)) [1..<Suc (Suc k)] (currRow[0 := Suc i])
      = cellUpdate s1 s2 (Suc i) (edRow s1 s2 i) (Suc k) ?r" by simp
  have val: "cellUpdate s1 s2 (Suc i) (edRow s1 s2 i) (Suc k) ?r
      = ?r[Suc k := ed (take (Suc i) s1) (take (Suc k) s2)]"
    using k i IH(2) [of k] ed_take_Suc [OF i k]
    by (simp add: cellUpdate_def nth_edRow)
  show ?case unfolding step val using IH k
    by (auto simp: nth_list_update less_Suc_eq_le le_Suc_eq)
qed

lemma fillRow_edRow:
  assumes i: "i < length s1" and len: "length currRow = Suc (length s2)"
  shows "fillRow s1 s2 (Suc i) (edRow s1 s2 i) currRow = edRow s1 s2 (Suc i)"
proof (rule nth_equalityI)
  show "length (fillRow s1 s2 (Suc i) (edRow s1 s2 i) currRow) = length (edRow s1 s2 (Suc i))"
    using fillRow_prefix [OF i len order_refl] by (simp add: fillRow_def)
next
  fix j assume "j < length (fillRow s1 s2 (Suc i) (edRow s1 s2 i) currRow)"
  then have "j \<le> length s2"
    using fillRow_prefix [OF i len order_refl] by (simp add: fillRow_def)
  then show "fillRow s1 s2 (Suc i) (edRow s1 s2 i) currRow ! j = edRow s1 s2 (Suc i) ! j"
    using fillRow_prefix [OF i len order_refl] by (simp add: fillRow_def nth_edRow)
qed

lemma rows_fold:
  assumes "k \<le> length s1" "length currRow = Suc (length s2)"
  shows "\<exists>other. length other = Suc (length s2) \<and>
      fold (\<lambda>i (prevRow, currRow). (fillRow s1 s2 i prevRow currRow, prevRow))
        [1..<Suc k] (edRow s1 s2 0, currRow) = (edRow s1 s2 k, other)"
  using assms(1)
proof (induction k)
  case 0
  show ?case using assms(2) by simp
next
  case (Suc k)
  then obtain other where o: "length other = Suc (length s2)"
    "fold (\<lambda>i (prevRow, currRow). (fillRow s1 s2 i prevRow currRow, prevRow))
        [1..<Suc k] (edRow s1 s2 0, currRow) = (edRow s1 s2 k, other)" by auto
  have "k < length s1" using Suc.prems by simp
  from fillRow_edRow [OF this o(1)] o show ?case by simp
qed

lemma rowLoop_edRow: "\<exists>other. rowLoop s1 s2 = (edRow s1 s2 (length s1), other)"
  using rows_fold [of "length s1" s1 "replicate (length s2 + 1) 0" s2]
  unfolding rowLoop_def initRow_eq edRow_0 by auto

lemma rowLoop_result: "(case rowLoop s1 s2 of (prevRow, currRow) \<Rightarrow> prevRow ! length s2) = ed s1 s2"
proof -
  obtain other where "rowLoop s1 s2 = (edRow s1 s2 (length s1), other)"
    using rowLoop_edRow by blast
  then show ?thesis by (simp add: nth_edRow)
qed

lemma levenshteinDistance_ed: "levenshteinDistance str1 str2 = ed str1 str2"
  unfolding levenshteinDistance_def Let_def
  by (simp add: rowLoop_result ed_sym [of str2 str1])

text \<open>
  Claim C4. For every pair of strings, \<open>levenshteinDistance\<close> returns the minimum number of
  single-element insertions, deletions and substitutions that turn the first string into the
  second: that many edits do it, and no smaller number does. Equal strings give 0, and when
  one operand is empty the result is the length of the other.
\<close>

theorem levenshteinDistance_minimal:
  "edit_steps (levenshteinDistance a b) a b
   \<and> (\<forall>n. edit_steps n a b \<longrightarrow> levenshteinDistance a b \<le> n)
   \<and> levenshteinDistance a a = 0
   \<and> levenshteinDistance [] b = length b
   \<and> levenshteinDistance a [] = length a"
  using ed_is_edit_distance [of a b]
  by (simp add: levenshteinDistance_ed is_edit_distance_def)

theorem levenshteinDistance_minimal_witness:
  "levenshteinDistance ''ab'' ''ba'' = 2
   \<and> edit_steps 2 ''ab'' ''ba'' \<and> \<not> edit_steps 1 ''ab'' ''ba''"
proof -
  have v: "levenshteinDistance ''ab'' ''ba'' = 2" by code_simp
  from levenshteinDistance_minimal [of "''ab''" "''ba''"] show ?thesis
    unfolding v by fastforce
qed

section \<open>The thresholded distance\<close>

lemma fst_cellUpdateT:
  "fst (cellUpdateT s1 s2 i prevRow j (r, m)) = cellUpdate s1 s2 i prevRow j r"
  by (simp add: cellUpdateT_def cellUpdate_def Let_def)

lemma snd_cellUpdateT:
  "snd (cellUpdateT s1 s2 i prevRow j (r, m)) = min m (cellUpdate s1 s2 i prevRow j r ! j)" if "j < length r"
  using that by (simp add: cellUpdateT_def cellUpdate_def Let_def min_def)

lemma fst_fold_cellUpdateT:
  "fst (fold (cellUpdateT s1 s2 i prevRow) js (r, m)) = fold (cellUpdate s1 s2 i prevRow) js r"
proof (induction js arbitrary: r m)
  case Nil
  show ?case by simp
next
  case (Cons j js)
  obtain r' m' where st: "cellUpdateT s1 s2 i prevRow j (r, m) = (r', m')" by (cases "cellUpdateT s1 s2 i prevRow j (r, m)")
  with fst_cellUpdateT [of s1 s2 i prevRow j r m] have "r' = cellUpdate s1 s2 i prevRow j r" by simp
  with Cons [of r' m'] st show ?case by simp
qed

lemma fillRowT_min_prefix:
  assumes i: "i < length s1" and len: "length currRow = Suc (length s2)" and k: "k \<le> length s2"
  shows "\<forall>j\<le>k. snd (fold (cellUpdateT s1 s2 (Suc i) (edRow s1 s2 i)) [1..<Suc k] (currRow[0 := Suc i], Suc i))
            \<le> ed (take (Suc i) s1) (take j s2)"
  using k
proof (induction k)
  case 0
  show ?case using i by simp
next
  case (Suc k)
  let ?f = "cellUpdateT s1 s2 (Suc i) (edRow s1 s2 i)"
  let ?st = "fold ?f [1..<Suc k] (currRow[0 := Suc i], Suc i)"
  let ?r = "fold (cellUpdate s1 s2 (Suc i) (edRow s1 s2 i)) [1..<Suc k] (currRow[0 := Suc i])"
  have k: "k < length s2" "k \<le> length s2" "Suc k \<le> length s2" using Suc.prems by simp_all
  have fst: "fst ?st = ?r" by (rule fst_fold_cellUpdateT)
  have lenr: "length ?r = Suc (length s2)" using fillRow_prefix [OF i len k(2)] by simp
  have st: "?st = (?r, snd ?st)" using fst by (metis prod.collapse)
  have new: "cellUpdate s1 s2 (Suc i) (edRow s1 s2 i) (Suc k) ?r ! Suc k = ed (take (Suc i) s1) (take (Suc k) s2)"
    using fillRow_prefix [OF i len k(3)] by simp
  have "snd (fold ?f [1..<Suc (Suc k)] (currRow[0 := Suc i], Suc i)) = snd (?f (Suc k) ?st)" by simp
  also have "\<dots> = snd (?f (Suc k) (?r, snd ?st))" using st by simp
  also have "\<dots> = min (snd ?st) (ed (take (Suc i) s1) (take (Suc k) s2))"
    using snd_cellUpdateT [of "Suc k" ?r s1 s2 "Suc i" "edRow s1 s2 i" "snd ?st"] lenr k new by simp
  finally have eq: "snd (fold ?f [1..<Suc (Suc k)] (currRow[0 := Suc i], Suc i))
      = min (snd ?st) (ed (take (Suc i) s1) (take (Suc k) s2))" .
  show ?case unfolding eq using Suc.IH k(2) by (auto simp: le_Suc_eq min_def)
qed

lemma fillRowT_edRow:
  assumes i: "i < length s1" and len: "length currRow = Suc (length s2)"
  shows "fst (fillRowT s1 s2 (Suc i) (edRow s1 s2 i) currRow) = edRow s1 s2 (Suc i)"
    and "j \<le> length s2 \<Longrightarrow>
         snd (fillRowT s1 s2 (Suc i) (edRow s1 s2 i) currRow) \<le> ed (take (Suc i) s1) (take j s2)"
proof -
  show "fst (fillRowT s1 s2 (Suc i) (edRow s1 s2 i) currRow) = edRow s1 s2 (Suc i)"
    using fillRow_edRow [OF i len] by (simp add: fillRowT_def fst_fold_cellUpdateT fillRow_def)
  show "j \<le> length s2 \<Longrightarrow>
         snd (fillRowT s1 s2 (Suc i) (edRow s1 s2 i) currRow) \<le> ed (take (Suc i) s1) (take j s2)"
    using fillRowT_min_prefix [OF i len order_refl] by (simp add: fillRowT_def)
qed

lemma ed_prefix_row: "\<exists>j\<le>length ys. ed p (take j ys) \<le> ed (p @ q) ys"
proof (induction p ys rule: ed.induct)
  case (1 ys)
  show ?case by (rule exI [of _ 0]) simp
next
  case (2 x p)
  show ?case by (rule exI [of _ 0]) simp
next
  case (3 x p y ys)
  let ?d = "ed ((x # p) @ q) (y # ys)"
  have "?d = Suc (ed (p @ q) (y # ys)) \<or> ?d = Suc (ed (x # p @ q) ys)
      \<or> ?d = ed (p @ q) ys + (if x = y then 0 else 1)"
    by (simp add: min_def)
  then consider (del) "?d = Suc (ed (p @ q) (y # ys))" | (ins) "?d = Suc (ed (x # p @ q) ys)"
    | (sub) "?d = ed (p @ q) ys + (if x = y then 0 else 1)" by blast
  then show ?case
  proof cases
    case del
    from "3.IH"(1) obtain j where j: "j \<le> length (y # ys)" "ed p (take j (y # ys)) \<le> ed (p @ q) (y # ys)"
      by blast
    have "ed (x # p) (take j (y # ys)) \<le> Suc (ed p (take j (y # ys)))" by (rule ed_Cons1_le)
    with j del show ?thesis by (intro exI [of _ j]) simp
  next
    case ins
    from "3.IH"(2) obtain j where j: "j \<le> length ys" "ed (x # p) (take j ys) \<le> ed ((x # p) @ q) ys"
      by blast
    have "ed (x # p) (y # take j ys) \<le> Suc (ed (x # p) (take j ys))" by (rule ed_Cons2_le)
    with j ins show ?thesis by (intro exI [of _ "Suc j"]) simp
  next
    case sub
    from "3.IH"(3) obtain j where j: "j \<le> length ys" "ed p (take j ys) \<le> ed (p @ q) ys"
      by blast
    have "ed (x # p) (y # take j ys) \<le> ed p (take j ys) + (if x = y then 0 else 1)" by (simp add: min_def)
    with j sub show ?thesis by (intro exI [of _ "Suc j"]) simp
  qed
qed

lemma row_min_le_ed:
  assumes "\<forall>j\<le>length s2. m \<le> ed (take i s1) (take j s2)"
  shows "m \<le> ed s1 s2"
proof -
  obtain j where "j \<le> length s2" "ed (take i s1) (take j s2) \<le> ed (take i s1 @ drop i s1) s2"
    using ed_prefix_row [of s2 "take i s1" "drop i s1"] by blast
  with assms show ?thesis by force
qed

lemma rowStepsT_result:
  assumes "i \<le> length s1" "length currRow = Suc (length s2)"
  shows "(\<exists>other. rowStepsT s1 s2 maxDistance [Suc i..<Suc (length s1)] (edRow s1 s2 i, currRow)
                     = Inr (edRow s1 s2 (length s1), other))
       \<or> (\<exists>c. maxDistance = Some c \<and> c < of_nat (ed s1 s2)
              \<and> rowStepsT s1 s2 maxDistance [Suc i..<Suc (length s1)] (edRow s1 s2 i, currRow)
                     = Inl (c + 1))"
  using assms
proof (induction "length s1 - i" arbitrary: i currRow)
  case 0
  then have "i = length s1" by simp
  then show ?case by simp
next
  case (Suc n)
  then have i: "i < length s1" and n: "n = length s1 - Suc i" by simp_all
  have upt: "[Suc i..<Suc (length s1)] = Suc i # [Suc (Suc i)..<Suc (length s1)]"
    using i by (simp add: upt_conv_Cons)
  obtain m where frt: "fillRowT s1 s2 (Suc i) (edRow s1 s2 i) currRow = (edRow s1 s2 (Suc i), m)"
    using fillRowT_edRow(1) [OF i Suc.prems(2)] by (metis prod.collapse)
  have m: "m \<le> ed s1 s2"
  proof (rule row_min_le_ed [of s2 m "Suc i" s1], intro allI impI)
    fix j assume "j \<le> length s2"
    from fillRowT_edRow(2) [OF i Suc.prems(2) this] frt
    show "m \<le> ed (take (Suc i) s1) (take j s2)" by simp
  qed
  show ?case
  proof (cases "maxDistance \<noteq> None \<and> of_nat m > the maxDistance")
    case True
    then obtain c where c: "maxDistance = Some c" "c < of_nat m" by auto
    have "(of_nat m :: rat) \<le> of_nat (ed s1 s2)" using m by simp
    with c have "c < of_nat (ed s1 s2)" by simp
    moreover have "rowStepsT s1 s2 maxDistance [Suc i..<Suc (length s1)] (edRow s1 s2 i, currRow) = Inl (c + 1)"
      unfolding upt using c frt by simp
    ultimately show ?thesis using c by blast
  next
    case False
    then have "rowStepsT s1 s2 maxDistance [Suc i..<Suc (length s1)] (edRow s1 s2 i, currRow)
        = rowStepsT s1 s2 maxDistance [Suc (Suc i)..<Suc (length s1)] (edRow s1 s2 (Suc i), edRow s1 s2 i)"
      unfolding upt using frt by auto
    moreover have "Suc i \<le> length s1" using i by simp
    ultimately show ?thesis using Suc.hyps(1) [OF n, of "edRow s1 s2 i"] by simp
  qed
qed

lemma rowLoopT_result:
  "(case rowLoopT s1 s2 maxDistance of
      Inl r \<Rightarrow> r
    | Inr (prevRow, currRow) \<Rightarrow> of_nat (prevRow ! length s2)) = of_nat (ed s1 s2)
   \<or> (\<exists>c. maxDistance = Some c \<and> c < of_nat (ed s1 s2) \<and>
        (case rowLoopT s1 s2 maxDistance of
           Inl r \<Rightarrow> r
         | Inr (prevRow, currRow) \<Rightarrow> of_nat (prevRow ! length s2)) = c + 1)"
proof -
  have init: "rowLoopT s1 s2 maxDistance
     = rowStepsT s1 s2 maxDistance [Suc 0..<Suc (length s1)] (edRow s1 s2 0, replicate (length s2 + 1) 0)"
    unfolding rowLoopT_def initRow_eq edRow_0 One_nat_def ..
  from rowStepsT_result [of 0 s1 "replicate (length s2 + 1) 0" s2 maxDistance]
  consider (full) other where "rowLoopT s1 s2 maxDistance = Inr (edRow s1 s2 (length s1), other)"
    | (abort) c where "maxDistance = Some c" "c < of_nat (ed s1 s2)"
        "rowLoopT s1 s2 maxDistance = Inl (c + 1)"
    unfolding init by auto
  then show ?thesis
  proof cases
    case full
    then show ?thesis by (simp add: nth_edRow)
  next
    case abort
    then show ?thesis by simp
  qed
qed

lemma levenshteinDistanceWithThreshold_cases:
  "levenshteinDistanceWithThreshold str1 str2 maxDistance = of_nat (ed str1 str2)
   \<or> (\<exists>c. maxDistance = Some c \<and> c < of_nat (ed str1 str2)
          \<and> levenshteinDistanceWithThreshold str1 str2 maxDistance = c + 1)"
proof -
  consider (e1) "str1 = []" | (e2) "str1 \<noteq> []" "str2 = []" | (eq) "str1 \<noteq> []" "str2 \<noteq> []" "str1 = str2"
    | (diff) "str1 \<noteq> []" "str2 \<noteq> []" "str1 \<noteq> str2"
             "maxDistance \<noteq> None \<and> \<bar>of_nat (length str2) - of_nat (length str1)\<bar> > the maxDistance"
    | (dp) "str1 \<noteq> []" "str2 \<noteq> []" "str1 \<noteq> str2"
             "\<not> (maxDistance \<noteq> None \<and> \<bar>of_nat (length str2) - of_nat (length str1)\<bar> > the maxDistance)"
    by blast
  then show ?thesis
  proof cases
    case e1
    then show ?thesis by (simp add: levenshteinDistanceWithThreshold_def)
  next
    case e2
    then show ?thesis by (simp add: levenshteinDistanceWithThreshold_def)
  next
    case eq
    then show ?thesis by (simp add: levenshteinDistanceWithThreshold_def)
  next
    case diff
    then obtain c where c: "maxDistance = Some c" "c < \<bar>of_nat (length str2) - of_nat (length str1)\<bar>"
      by auto
    have "\<bar>(of_nat (length str2) :: rat) - of_nat (length str1)\<bar> \<le> of_nat (ed str1 str2)"
    proof (cases "length str1 \<le> length str2")
      case True
      then have "\<bar>(of_nat (length str2) :: rat) - of_nat (length str1)\<bar> = of_nat (length str2 - length str1)"
        by (simp add: of_nat_diff)
      then show ?thesis using ed_length_diff(1) [of str2 str1] by simp
    next
      case False
      then have "\<bar>(of_nat (length str2) :: rat) - of_nat (length str1)\<bar> = of_nat (length str1 - length str2)"
        by (simp add: of_nat_diff)
      then show ?thesis using ed_length_diff(2) [of str1 str2] by simp
    qed
    with c have "c < of_nat (ed str1 str2)" by simp
    moreover have "levenshteinDistanceWithThreshold str1 str2 maxDistance = c + 1"
      using diff c by (simp add: levenshteinDistanceWithThreshold_def)
    ultimately show ?thesis using c by blast
  next
    case dp
    show ?thesis
    proof (cases "length str1 > length str2")
      case True
      then have "levenshteinDistanceWithThreshold str1 str2 maxDistance =
        (case rowLoopT str2 str1 maxDistance of
             Inl r \<Rightarrow> r
           | Inr (prevRow, currRow) \<Rightarrow> of_nat (prevRow ! length str1))"
        using dp unfolding levenshteinDistanceWithThreshold_def Let_def by auto
      then show ?thesis using rowLoopT_result [where ?s1.0 = str2 and ?s2.0 = str1 and maxDistance = maxDistance] by (simp add: ed_sym [of str2 str1])
    next
      case False
      then have "levenshteinDistanceWithThreshold str1 str2 maxDistance =
        (case rowLoopT str1 str2 maxDistance of
             Inl r \<Rightarrow> r
           | Inr (prevRow, currRow) \<Rightarrow> of_nat (prevRow ! length str2))"
        using dp unfolding levenshteinDistanceWithThreshold_def Let_def by auto
      then show ?thesis using rowLoopT_result [where ?s1.0 = str1 and ?s2.0 = str2 and maxDistance = maxDistance] by simp
    qed
  qed
qed

lemma levenshteinDistanceWithThreshold_bound:
  assumes "is_edit_distance d a b"
  shows "(of_nat d \<le> c \<longrightarrow> levenshteinDistanceWithThreshold a b (Some c) = of_nat d)
       \<and> (c < of_nat d \<longrightarrow>
            c < levenshteinDistanceWithThreshold a b (Some c)
            \<and> (levenshteinDistanceWithThreshold a b (Some c) = c + 1
               \<or> levenshteinDistanceWithThreshold a b (Some c) = of_nat d))
       \<and> levenshteinDistanceWithThreshold a b None = of_nat d"
proof -
  have d: "d = ed a b" using assms by (rule is_edit_distance_unique)
  show ?thesis
    using levenshteinDistanceWithThreshold_cases [of a b "Some c"]
      levenshteinDistanceWithThreshold_cases [of a b None]
    unfolding d by auto
qed

text \<open>
  Claim C2. For every pair of strings and every ceiling \<open>c\<close>, \<open>levenshteinDistanceWithThreshold\<close>
  with \<open>maxDistance = c\<close> returns the true edit distance when that distance is at most \<open>c\<close>, and
  exactly \<open>c + 1\<close> in every other case. The documentation of the function promises the same
  (``\<open>maxDistance + 1\<close> if threshold exceeded''). The code does not keep the promise: it returns
  \<open>c + 1\<close> where the lengths differ by more than \<open>c\<close> and where the minimum of a row is above
  \<open>c\<close>, but its last statement returns the final cell of the table without comparing it to the
  ceiling. On \<open>xyab\<close> against \<open>abcd\<close> with ceiling 2 the distance is 4, the lengths are equal
  and every row of the table has a minimum of at most 2, so neither exit fires and the function
  returns 4 where 3 is promised.
\<close>

theorem levenshteinDistanceWithThreshold_counterexample:
  "is_edit_distance 4 ''xyab'' ''abcd'' \<and> (2::rat) < of_nat 4
   \<and> levenshteinDistanceWithThreshold ''xyab'' ''abcd'' (Some 2) = 4
   \<and> levenshteinDistanceWithThreshold ''xyab'' ''abcd'' (Some 2) \<noteq> 2 + 1"
proof -
  have "levenshteinDistance ''xyab'' ''abcd'' = 4" by code_simp
  then have v: "ed ''xyab'' ''abcd'' = 4" by (simp add: levenshteinDistance_ed)
  have d: "is_edit_distance 4 ''xyab'' ''abcd''"
    using ed_is_edit_distance [of "''xyab''" "''abcd''"] unfolding v .
  have t: "levenshteinDistanceWithThreshold ''xyab'' ''abcd'' (Some 2) = 4" by code_simp
  show ?thesis using d t by simp
qed

text \<open>
  With the distance 4 no three edits turn \<open>xyab\<close> into \<open>abcd\<close>, and four do.
\<close>

theorem levenshteinDistanceWithThreshold_counterexample_witness:
  "edit_steps 4 ''xyab'' ''abcd'' \<and> \<not> edit_steps 3 ''xyab'' ''abcd''
   \<and> levenshteinDistanceWithThreshold ''xyab'' ''abcd'' (Some 2) = 4"
proof -
  from levenshteinDistanceWithThreshold_counterexample
  have d: "is_edit_distance 4 ''xyab'' ''abcd''"
    and t: "levenshteinDistanceWithThreshold ''xyab'' ''abcd'' (Some 2) = 4"
    by (rule conjunct1, rule conjunct2 [THEN conjunct2, THEN conjunct1])
  from d have s: "edit_steps 4 ''xyab'' ''abcd''"
    and a: "\<forall>n. edit_steps n ''xyab'' ''abcd'' \<longrightarrow> 4 \<le> n"
    unfolding is_edit_distance_def by simp_all
  from a [rule_format, of 3] have "\<not> edit_steps 3 ''xyab'' ''abcd''" by auto
  with s t show ?thesis by simp
qed

section \<open>Rounding to doubles\<close>

text \<open>
  \<open>binade x\<close> is the exponent of the power of two at or below a positive \<open>x\<close>; \<open>fl x\<close> is
  within half a unit in the last place of \<open>x\<close>, is not negative when \<open>x\<close> is not, and leaves the integers
  below \<open>2\<^sup>5\<^sup>3\<close> alone; and \<open>fl_eqI\<close> computes \<open>fl x\<close> from the unit in the last place of \<open>x\<close>
  and the multiple of it nearest to \<open>x\<close>.
\<close>

lemma binade_bounds:
  assumes "0 < x"
  shows "2 powi binade x \<le> x" and "x < 2 powi (binade x + 1)"
proof -
  have "2 powi binade x \<le> x \<and> x < 2 powi (binade x + 1)"
  proof (cases "1 \<le> x")
    case True
    let ?n = "nat \<lfloor>x\<rfloor>"
    let ?k = "floorlog 2 ?n"
    have n: "0 < ?n" using True by simp
    have k: "0 < ?k" using n by (simp add: floorlog_eq_zero_iff Suc_le_eq not_le flip: neq0_conv)
    from floorlog_bounds [OF n, of 2] have b: "2 ^ (?k - 1) \<le> ?n" "?n < 2 ^ ?k" by simp_all
    have e: "binade x = int (?k - 1)" "binade x + 1 = int ?k"
      using True k by (simp_all add: binade_def)
    have nx: "(of_nat ?n :: rat) \<le> x" using True by simp
    have "(2::rat) ^ (?k - 1) \<le> of_nat ?n" using b(1) by (metis of_nat_le_iff of_nat_numeral of_nat_power)
    from this nx have lo: "(2::rat) ^ (?k - 1) \<le> x" by (rule order_trans)
    have "?n + 1 \<le> 2 ^ ?k" using b(2) by linarith
    then have "(of_nat (?n + 1) :: rat) \<le> 2 ^ ?k" by (metis of_nat_le_iff of_nat_numeral of_nat_power)
    moreover have "x < of_nat (?n + 1)" using True by (simp add: floor_less_iff [symmetric]) linarith
    ultimately have hi: "x < (2::rat) ^ ?k" by simp
    have "(2::rat) powi binade x = 2 ^ (?k - 1)" by (simp only: e(1) power_int_of_nat)
    moreover have "(2::rat) powi (binade x + 1) = 2 ^ ?k" by (simp only: e(2) power_int_of_nat)
    ultimately show ?thesis using lo hi by (simp only:)
  next
    case False
    with assms have x1: "x < 1" by simp
    let ?y = "1 / x"
    let ?m = "nat (\<lceil>?y\<rceil> - 1)"
    let ?k = "floorlog 2 ?m"
    have y1: "1 < ?y" using assms x1 by simp
    then have c: "2 \<le> \<lceil>?y\<rceil>" by (simp add: le_ceiling_iff)
    then have m: "0 < ?m" by simp
    from floorlog_bounds [OF m, of 2] have b: "2 ^ (?k - 1) \<le> ?m" "?m < 2 ^ ?k" by simp_all
    have k: "0 < ?k" using m by (simp add: floorlog_eq_zero_iff flip: neq0_conv)
    have e: "binade x = - int ?k" using False by (simp add: binade_def)
    have "0 \<le> \<lceil>?y\<rceil> - 1" using c by linarith
    then have "(of_nat ?m :: rat) = of_int (\<lceil>?y\<rceil> - 1)" by (rule of_nat_nat)
    then have m1: "(of_nat ?m :: rat) = of_int \<lceil>?y\<rceil> - 1" by simp
    have "?m + 1 \<le> 2 ^ ?k" using b(2) by linarith
    then have "(of_nat (?m + 1) :: rat) \<le> 2 ^ ?k" by (metis of_nat_le_iff of_nat_numeral of_nat_power)
    then have "of_int \<lceil>?y\<rceil> \<le> (2::rat) ^ ?k" using m1 by simp
    then have yk: "?y \<le> 2 ^ ?k" using le_of_int_ceiling [of ?y] by linarith
    have lo: "1 / 2 ^ ?k \<le> x"
    proof -
      have "1 \<le> x * 2 ^ ?k" using yk assms by (simp add: field_simps)
      then show ?thesis by (simp add: field_simps)
    qed
    have "(2::rat) ^ (?k - 1) \<le> of_nat ?m" using b(1) by (metis of_nat_le_iff of_nat_numeral of_nat_power)
    also have "\<dots> < ?y" unfolding m1 using ceiling_correct [of ?y] by linarith
    finally have "(2::rat) ^ (?k - 1) < 1 / x" .
    then have hi: "x < 1 / 2 ^ (?k - 1)" using assms by (simp add: field_simps)
    have p1: "(2::rat) powi (- int ?k) = 1 / 2 ^ ?k" by (simp add: power_int_minus_divide)
    have "- int ?k + 1 = - int (?k - 1)" using k by simp
    then have p2: "(2::rat) powi (- int ?k + 1) = 1 / 2 ^ (?k - 1)"
      by (simp only: power_int_minus_divide power_int_of_nat)
    have "(2::rat) powi binade x = 1 / 2 ^ ?k" "(2::rat) powi (binade x + 1) = 1 / 2 ^ (?k - 1)"
      by (simp_all only: e p1 p2)
    with lo hi show ?thesis by (simp only:)
  qed
  then show "2 powi binade x \<le> x" and "x < 2 powi (binade x + 1)" by simp_all
qed

lemma binade_unique:
  assumes "2 powi e \<le> x" "x < 2 powi (e + 1)"
  shows "binade x = e"
proof -
  have "(0::rat) < 2 powi e" by simp
  from this assms(1) have x: "0 < x" by (rule less_le_trans)
  note b = binade_bounds [OF x]
  have "\<not> e < binade x"
  proof
    assume "e < binade x"
    then have "(2::rat) powi (e + 1) \<le> 2 powi binade x" by (intro power_int_increasing) simp_all
    with b(1) assms(2) show False by simp
  qed
  moreover have "\<not> binade x < e"
  proof
    assume "binade x < e"
    then have "(2::rat) powi (binade x + 1) \<le> 2 powi e" by (intro power_int_increasing) simp_all
    with b(2) assms(1) show False by simp
  qed
  ultimately show ?thesis by simp
qed

lemma roundEven_unique:
  assumes "\<bar>y - of_int n\<bar> < 1 / 2"
  shows "roundEven y = n"
proof -
  from assms have a: "y - of_int n < 1 / 2" "- (y - of_int n) < 1 / 2"
    by (simp_all only: abs_less_iff)
  have "\<lfloor>y\<rfloor> = n \<or> \<lfloor>y\<rfloor> = n - 1"
  proof -
    from a have "of_int n - 1 \<le> y" "y < of_int n + 1" by linarith+
    then have "of_int (n - 1) \<le> y" "y < of_int (n + 1)" by simp_all
    then have "n - 1 \<le> \<lfloor>y\<rfloor>" "\<lfloor>y\<rfloor> < n + 1" by (simp_all only: le_floor_iff floor_less_iff)
    then show ?thesis by linarith
  qed
  then show ?thesis
  proof
    assume f: "\<lfloor>y\<rfloor> = n"
    have "roundEven y = (if y - of_int n < 1 / 2 then n else if 1 / 2 < y - of_int n then n + 1
                          else if even n then n else n + 1)"
      unfolding roundEven_def Let_def f ..
    with a(1) show ?thesis by (simp only: if_True)
  next
    assume f: "\<lfloor>y\<rfloor> = n - 1"
    have r: "roundEven y = (if y - of_int (n - 1) < 1 / 2 then n - 1
                          else if 1 / 2 < y - of_int (n - 1) then n - 1 + 1
                          else if even (n - 1) then n - 1 else n - 1 + 1)"
      unfolding roundEven_def Let_def f ..
    have "y - of_int (n - 1) = y - of_int n + 1" by simp
    with a(2) have "1 / 2 < y - of_int (n - 1)" by linarith
    then have "\<not> y - of_int (n - 1) < 1 / 2" "1 / 2 < y - of_int (n - 1)" by linarith+
    with r have "roundEven y = n - 1 + 1" by (simp only: if_True if_False)
    then show ?thesis by simp
  qed
qed

lemma roundEven_of_int [simp]: "roundEven (of_int n) = n"
  by (rule roundEven_unique) simp

lemma roundEven_cases: "roundEven y = \<lfloor>y\<rfloor> \<or> roundEven y = \<lfloor>y\<rfloor> + 1 \<and> of_int \<lfloor>y\<rfloor> < y"
  by (auto simp: roundEven_def Let_def)

lemma roundEven_le: "y \<le> of_int n \<Longrightarrow> roundEven y \<le> n"
proof -
  assume y: "y \<le> of_int n"
  then have f: "\<lfloor>y\<rfloor> \<le> n" by (simp add: floor_le_iff)
  from roundEven_cases [of y] show ?thesis
  proof
    assume "roundEven y = \<lfloor>y\<rfloor>"
    with f show ?thesis by simp
  next
    assume a: "roundEven y = \<lfloor>y\<rfloor> + 1 \<and> of_int \<lfloor>y\<rfloor> < y"
    with y have "of_int \<lfloor>y\<rfloor> < (of_int n :: rat)" by simp
    then have "\<lfloor>y\<rfloor> < n" by (simp only: of_int_less_iff)
    with a show ?thesis by simp
  qed
qed

lemma roundEven_ge: "of_int n \<le> y \<Longrightarrow> n \<le> roundEven y"
proof -
  assume "of_int n \<le> y"
  then have "n \<le> \<lfloor>y\<rfloor>" by (simp only: le_floor_iff)
  with roundEven_cases [of y] show ?thesis by auto
qed

lemma fl_0 [simp]: "fl 0 = 0"
  by (simp add: fl_def)

lemma fl_nonneg: "0 \<le> x \<Longrightarrow> 0 \<le> fl x"
proof (cases "x = 0")
  case True
  then show ?thesis by simp
next
  case False
  assume "0 \<le> x"
  let ?s = "(2::rat) powi (max (binade \<bar>x\<bar>) (- 1022) - 52)"
  have s: "0 < ?s" by simp
  then have "of_int 0 \<le> x / ?s" using \<open>0 \<le> x\<close> by simp
  from roundEven_ge [OF this] have "(0::rat) \<le> of_int (roundEven (x / ?s))" by simp
  then show ?thesis using False s by (simp add: fl_def Let_def)
qed

lemma binade_less:
  assumes "0 < x" "x < 2 ^ n"
  shows "binade x < int n"
proof (rule ccontr)
  assume "\<not> binade x < int n"
  then have "(2::rat) powi int n \<le> 2 powi binade x" by (intro power_int_increasing) simp_all
  with binade_bounds(1) [OF assms(1)] assms(2) show False by simp
qed

lemma fl_le_nat:
  assumes "0 \<le> x" "x \<le> of_nat n" "n < 2 ^ 53"
  shows "fl x \<le> of_nat n"
proof (cases "x = 0")
  case True
  then show ?thesis by simp
next
  case False
  with assms have x: "0 < x" by simp
  let ?t = "max (binade \<bar>x\<bar>) (- 1022) - 52"
  let ?s = "(2::rat) powi ?t"
  have "(of_nat n :: rat) < 2 ^ 53" using assms(3) by (metis of_nat_less_iff of_nat_numeral of_nat_power)
  with assms(2) have "x < 2 ^ 53" by simp
  from binade_less [OF x this] x have t: "?t \<le> 0" by simp
  have s: "0 < ?s" by simp
  have inv: "1 / ?s = 2 ^ nat (- ?t)"
    using t by (simp add: power_int_minus_divide [symmetric] power_int_nonneg_exp)
  have "of_nat n / ?s = of_int (int n * 2 ^ nat (- ?t))"
    using inv by (simp add: field_simps)
  moreover have "x / ?s \<le> of_nat n / ?s" using assms(2) s by (simp add: divide_right_mono)
  ultimately have "x / ?s \<le> of_int (int n * 2 ^ nat (- ?t))" by simp
  from roundEven_le [OF this] have "(of_int (roundEven (x / ?s)) :: rat) \<le> of_int (int n * 2 ^ nat (- ?t))"
    by (simp only: of_int_le_iff)
  then have "of_int (roundEven (x / ?s)) * ?s \<le> of_int (int n * 2 ^ nat (- ?t)) * ?s"
    using s by (simp add: mult_right_mono)
  also have "of_int (int n * 2 ^ nat (- ?t)) * ?s = of_nat n" using inv s by (simp add: field_simps)
  finally show ?thesis using False by (simp add: fl_def Let_def)
qed

lemma fl_of_nat:
  assumes "n < 2 ^ 53"
  shows "fl (of_nat n) = of_nat n"
proof (cases "n = 0")
  case True
  then show ?thesis by simp
next
  case False
  let ?x = "of_nat n :: rat"
  have x: "0 < ?x" using False by simp
  let ?t = "max (binade \<bar>?x\<bar>) (- 1022) - 52"
  let ?s = "(2::rat) powi ?t"
  have "?x < 2 ^ 53" using assms by (metis of_nat_less_iff of_nat_numeral of_nat_power)
  from binade_less [OF x this] x have t: "?t \<le> 0" by simp
  have s: "0 < ?s" by simp
  have inv: "1 / ?s = 2 ^ nat (- ?t)"
    using t by (simp add: power_int_minus_divide [symmetric] power_int_nonneg_exp)
  have q: "?x / ?s = of_int (int n * 2 ^ nat (- ?t))" using inv by (simp add: field_simps)
  have "of_int (roundEven (?x / ?s)) * ?s = of_int (int n * 2 ^ nat (- ?t)) * ?s"
    unfolding q roundEven_of_int ..
  also have "\<dots> = ?x" using inv s by (simp add: field_simps)
  finally show ?thesis using False by (simp add: fl_def Let_def)
qed

lemma fl_eqI:
  assumes "s = 2 powi k" "- 1074 \<le> k" "2 ^ 52 * s \<le> \<bar>x\<bar>" "\<bar>x\<bar> < 2 ^ 53 * s"
    and "\<bar>x / s - of_int n\<bar> < 1 / 2"
  shows "fl x = of_int n * s"
proof -
  have s: "0 < s" unfolding assms(1) by simp
  have "(2::rat) ^ 52 * 2 powi k = 2 powi (k + 52)" "(2::rat) ^ 53 * 2 powi k = 2 powi (k + 52 + 1)"
    by (simp_all add: power_int_add)
  with assms have "2 powi (k + 52) \<le> \<bar>x\<bar>" "\<bar>x\<bar> < 2 powi (k + 52 + 1)" by simp_all
  then have b: "binade \<bar>x\<bar> = k + 52" by (rule binade_unique)
  have "x \<noteq> 0" using assms(3) s by auto
  then show ?thesis
    using assms(2) roundEven_unique [OF assms(5)] by (simp add: fl_def Let_def b assms(1))
qed

lemma roundEven_half: "\<bar>of_int (roundEven y) - y\<bar> \<le> 1 / 2"
proof -
  have "of_int \<lfloor>y\<rfloor> \<le> y" "y < of_int \<lfloor>y\<rfloor> + 1" by linarith+
  then show ?thesis
    unfolding roundEven_def Let_def by (auto simp: abs_le_iff not_less)
qed

lemma fl_error: "\<bar>fl x - x\<bar> \<le> 2 powi (max (binade \<bar>x\<bar>) (- 1022) - 53)"
proof (cases "x = 0")
  case True
  then show ?thesis by simp
next
  case False
  define e where "e = max (binade \<bar>x\<bar>) (- 1022)"
  define s :: rat where "s = 2 powi (e - 52)"
  have s: "0 < s" unfolding s_def by simp
  have f: "fl x = of_int (roundEven (x / s)) * s"
    using False unfolding fl_def Let_def e_def s_def by simp
  have "fl x - x = (of_int (roundEven (x / s)) - x / s) * s"
    unfolding f using s by (simp add: algebra_simps)
  then have "\<bar>fl x - x\<bar> = \<bar>of_int (roundEven (x / s)) - x / s\<bar> * s"
    using s by (simp add: abs_mult)
  also have "\<dots> \<le> 1 / 2 * s"
    using roundEven_half [of "x / s"] s by (intro mult_right_mono) simp_all
  also have "1 / 2 * s = 2 powi (e - 53)"
  proof -
    have "(2::rat) powi (e - 52) = 2 powi (e - 53 + 1)" by simp
    also have "\<dots> = 2 powi (e - 53) * 2" by (subst power_int_add) simp_all
    finally show ?thesis unfolding s_def by simp
  qed
  finally show ?thesis unfolding e_def .
qed

lemma fl_numeral: "(numeral k :: nat) < 2 ^ 53 \<Longrightarrow> fl (numeral k) = numeral k"
  using fl_of_nat [of "numeral k"] by simp

lemma fl_1 [simp]: "fl 1 = 1"
  using fl_of_nat [of 1] by simp

lemma fl_interval:
  assumes "0 \<le> x" "x \<le> of_nat n" "n < 2 ^ 53"
  shows "0 \<le> fl x \<and> fl x \<le> of_nat n"
  using fl_nonneg [OF assms(1)] fl_le_nat [OF assms] by simp

section \<open>The scorer\<close>

lemma jsRound_mono: "x \<le> y \<Longrightarrow> jsRound x \<le> jsRound y"
  unfolding jsRound_def by (simp add: floor_mono)

lemma jsRound_of_nat [simp]: "jsRound (of_nat n) = of_nat n" 
  unfolding jsRound_def by (simp add: floor_unique)

lemma jsRound_0 [simp]: "jsRound 0 = 0"
  using jsRound_of_nat [of 0] by simp

lemma jsRound_numeral [simp]: "jsRound (numeral k) = numeral k"
  using jsRound_of_nat [of "numeral k"] by simp

lemma score_range:
  assumes "d \<le> m" "0 < m"
  shows "0 \<le> fl (jsRound (fl (fl ((of_nat m - of_nat d) / of_nat m) * 10000)) / 100)"
    and "fl (jsRound (fl (fl ((of_nat m - of_nat d) / of_nat m) * 10000)) / 100) \<le> 100"
proof -
  let ?q = "(of_nat m - of_nat d) / of_nat m :: rat"
  have q: "0 \<le> ?q" "?q \<le> of_nat 1" using assms by simp_all
  have a: "0 \<le> fl ?q \<and> fl ?q \<le> of_nat 1"
    by (rule fl_interval [OF q]) simp
  then have "fl ?q * 10000 \<le> 1 * 10000" by (intro mult_right_mono) simp_all
  then have b: "0 \<le> fl ?q * 10000" "fl ?q * 10000 \<le> of_nat 10000" using a by simp_all
  have c: "0 \<le> fl (fl ?q * 10000) \<and> fl (fl ?q * 10000) \<le> of_nat 10000"
    by (rule fl_interval [OF b]) simp
  have r0: "0 \<le> jsRound (fl (fl ?q * 10000))"
    using jsRound_mono [of 0 "fl (fl ?q * 10000)"] c by simp
  have r1: "jsRound (fl (fl ?q * 10000)) \<le> 10000"
    using jsRound_mono [of "fl (fl ?q * 10000)" 10000] c by simp
  have z: "0 \<le> jsRound (fl (fl ?q * 10000)) / 100"
    "jsRound (fl (fl ?q * 10000)) / 100 \<le> of_nat 100"
    using r0 r1 by simp_all
  have "0 \<le> fl (jsRound (fl (fl ?q * 10000)) / 100)
      \<and> fl (jsRound (fl (fl ?q * 10000)) / 100) \<le> of_nat 100"
    by (rule fl_interval [OF z]) simp
  then show "0 \<le> fl (jsRound (fl (fl ?q * 10000)) / 100)"
    and "fl (jsRound (fl (fl ?q * 10000)) / 100) \<le> 100" by simp_all
qed

lemma calculateSimilarityWithThreshold_Some:
  assumes "a \<noteq> b" "a \<noteq> []" "b \<noteq> []"
  shows "calculateSimilarityWithThreshold a b (Some s) =
     (if of_int \<lfloor>fl (of_nat (max (length a) (length b)) * fl (1 - fl (s / 100)))\<rfloor> < (of_nat (ed a b) :: rat)
      then 0
      else fl (jsRound (fl (fl ((of_nat (max (length a) (length b)) - of_nat (ed a b))
                                / of_nat (max (length a) (length b))) * 10000)) / 100))"
proof -
  let ?c = "of_int \<lfloor>fl (of_nat (max (length a) (length b)) * fl (1 - fl (s / 100)))\<rfloor> :: rat"
  from levenshteinDistanceWithThreshold_cases [of a b "Some ?c"]
  have iff: "?c < levenshteinDistanceWithThreshold a b (Some ?c) \<longleftrightarrow> ?c < (of_nat (ed a b) :: rat)"
    by auto
  from levenshteinDistanceWithThreshold_cases [of a b "Some ?c"]
  have "\<not> ?c < of_nat (ed a b) \<Longrightarrow> levenshteinDistanceWithThreshold a b (Some ?c) = of_nat (ed a b)"
    by auto
  with iff show ?thesis
    using assms unfolding calculateSimilarityWithThreshold_def Let_def by simp
qed

lemma calculateSimilarityWithThreshold_None:
  assumes "a \<noteq> b" "a \<noteq> []" "b \<noteq> []"
  shows "calculateSimilarityWithThreshold a b None =
     fl (jsRound (fl (fl ((of_nat (max (length a) (length b)) - of_nat (ed a b))
                          / of_nat (max (length a) (length b))) * 10000)) / 100)"
  using assms levenshteinDistanceWithThreshold_cases [of a b None]
  unfolding calculateSimilarityWithThreshold_def Let_def by simp

lemma calculateSimilarityWithThreshold_range:
  "0 \<le> calculateSimilarityWithThreshold a b ms \<and> calculateSimilarityWithThreshold a b ms \<le> 100"
proof (cases "a \<noteq> b \<and> a \<noteq> [] \<and> b \<noteq> []")
  case False
  then show ?thesis by (auto simp: calculateSimilarityWithThreshold_def)
next
  case True
  then have m: "0 < max (length a) (length b)" by (cases a) auto
  note r = score_range [OF ed_le_max [of a b] m]
  show ?thesis
  proof (cases ms)
    case None
    then show ?thesis using r True by (simp add: calculateSimilarityWithThreshold_None)
  next
    case (Some s)
    then show ?thesis using r True by (simp add: calculateSimilarityWithThreshold_Some)
  qed
qed

lemma calculateSimilarity_value:
  assumes "a \<noteq> b" "a \<noteq> []" "b \<noteq> []"
  shows "calculateSimilarity a b =
     fl (jsRound (fl (fl (fl ((of_nat (max (length a) (length b)) - of_nat (ed a b))
                              / of_nat (max (length a) (length b))) * 100) * 100)) / 100)"
  using assms unfolding calculateSimilarity_def Let_def levenshteinDistance_ed by simp

lemma calculateSimilarity_nonneg: "0 \<le> calculateSimilarity a b"
proof (cases "a \<noteq> b \<and> a \<noteq> [] \<and> b \<noteq> []")
  case False
  then show ?thesis by (auto simp: calculateSimilarity_def)
next
  case True
  let ?q = "(of_nat (max (length a) (length b)) - of_nat (ed a b))
              / of_nat (max (length a) (length b)) :: rat"
  have "(of_nat (ed a b) :: rat) \<le> of_nat (max (length a) (length b))"
    using ed_le_max [of a b] by (simp only: of_nat_le_iff)
  then have q: "0 \<le> ?q" by simp
  have "0 \<le> fl (fl (fl ?q * 100) * 100)"
    by (intro fl_nonneg mult_nonneg_nonneg q) simp_all
  from jsRound_mono [OF this] have "0 \<le> jsRound (fl (fl (fl ?q * 100) * 100)) / 100" by simp
  from fl_nonneg [OF this] show ?thesis
    using True by (simp add: calculateSimilarity_value)
qed

subsection \<open>The score of one edit in five characters, and its ceiling at 80\<close>

text \<open>
  The doubles met when a pair of texts of maximal length 5 and edit distance 1 is scored, and
  when the distance ceiling for \<open>minSimilarity = 80\<close> is computed for it. \<open>80 / 100\<close> is not a
  double; the nearest one is a little above \<open>4 / 5\<close>, so \<open>1 - 0.8\<close> is a little below \<open>1 / 5\<close>
  and five times that, rounded, is the largest double below 1.
\<close>

lemma fl_4_5: "fl (4 / 5) = 3602879701896397 / 4503599627370496"
  using fl_eqI [of "1 / 9007199254740992" "- 53" "4 / 5" 7205759403792794]
  by (simp add: power_int_minus_divide)

lemma fl_1_minus:
  "fl (1 - 3602879701896397 / 4503599627370496) = 900719925474099 / 4503599627370496"
  using fl_eqI [of "1 / 36028797018963968" "- 55"
      "1 - 3602879701896397 / 4503599627370496" 7205759403792792]
  by (simp add: power_int_minus_divide)

lemma fl_5_times:
  "fl (5 * (900719925474099 / 4503599627370496)) = 4503599627370495 / 4503599627370496"
  using fl_eqI [of "1 / 9007199254740992" "- 53"
      "5 * (900719925474099 / 4503599627370496)" 9007199254740990]
  by (simp add: power_int_minus_divide)

lemma fl_times_100: "fl (3602879701896397 / 4503599627370496 * 100) = 80"
  using fl_eqI [of "1 / 70368744177664" "- 46"
      "3602879701896397 / 4503599627370496 * 100" 5629499534213120]
  by (simp add: power_int_minus_divide)

lemma fl_times_10000: "fl (3602879701896397 / 4503599627370496 * 10000) = 8000"
  using fl_eqI [of "1 / 1099511627776" "- 40"
      "3602879701896397 / 4503599627370496 * 10000" 8796093022208000]
  by (simp add: power_int_minus_divide)

lemma fl_80_100: "fl (80 / 100) = 3602879701896397 / 4503599627370496"
  using fl_4_5 by simp

lemma ceiling_5_at_80: "\<lfloor>fl (5 * fl (1 - fl (80 / 100)))\<rfloor> = 0"
  unfolding fl_80_100 fl_1_minus fl_5_times by (simp add: floor_unique)

lemma score_4_of_5: "fl (jsRound (fl (fl (4 / 5) * 10000)) / 100) = 80"
  unfolding fl_4_5 fl_times_10000 by (simp add: fl_numeral)

lemma score_4_of_5_twice: "fl (jsRound (fl (fl (fl (4 / 5) * 100) * 100)) / 100) = 80"
  unfolding fl_4_5 fl_times_100 by (simp add: fl_numeral)

subsection \<open>Scores that are rounded, and scores at a tie\<close>

text \<open>
  One edit in three characters is 66.66... percent and is reported as the double 66.67. The
  quotients \<open>57 / 800\<close> and \<open>23 / 160\<close> are ties at the second decimal of the percentage
  (7.125 and 14.375); their doubles lie just below, and so do the products with 10000 and
  with 100 twice, 712.4999999999999 and 1437.4999999999998, so \<open>Math.round\<close> goes down where
  the exact quotient would go up. Texts that repeat one character give such distances: the
  distance between \<open>n\<close> and \<open>n + k\<close> copies is \<open>k\<close>.
\<close>

lemma ed_replicate: "ed (replicate n x) (replicate (n + k) x) = k"
proof (rule antisym)
  show "ed (replicate n x) (replicate (n + k) x) \<le> k"
  proof (induction n)
    case 0
    then show ?case by simp
  next
    case (Suc n)
    have "ed (x # replicate n x) (x # replicate (n + k) x) \<le> ed (replicate n x) (replicate (n + k) x)"
      by simp
    with Suc show ?case by simp
  qed
  show "k \<le> ed (replicate n x) (replicate (n + k) x)"
    using ed_length_diff(1) [of "replicate (n + k) x" "replicate n x"] by simp
qed

lemma fl_57_100: "fl (57 / 100) = 5134103575202365 / 9007199254740992"
  using fl_eqI [of "1 / 9007199254740992" "- 53" "57 / 100" 5134103575202365]
  by (simp add: power_int_minus_divide)

lemma fl_57_100_times_100: "fl (5134103575202365 / 9007199254740992 * 100) = 8022036836253695 / 140737488355328"
  using fl_eqI [of "1 / 140737488355328" "- 47" "5134103575202365 / 9007199254740992 * 100" 8022036836253695]
  by (simp add: power_int_minus_divide)

lemma fl_57_100_times_100_twice: "fl (8022036836253695 / 140737488355328 * 100) = 6267216278323199 / 1099511627776"
  using fl_eqI [of "1 / 1099511627776" "- 40" "8022036836253695 / 140737488355328 * 100" 6267216278323199]
  by (simp add: power_int_minus_divide)

lemma fl_2_3: "fl (2 / 3) = 6004799503160661 / 9007199254740992"
  using fl_eqI [of "1 / 9007199254740992" "- 53" "2 / 3" 6004799503160661]
  by (simp add: power_int_minus_divide)

lemma fl_2_3_times_10000: "fl (6004799503160661 / 9007199254740992 * 10000) = 3665038759253333 / 549755813888"
  using fl_eqI [of "1 / 1099511627776" "- 40" "6004799503160661 / 9007199254740992 * 10000" 7330077518506666]
  by (simp add: power_int_minus_divide)

lemma fl_57_800: "fl (57 / 800) = 5134103575202365 / 72057594037927936"
  using fl_eqI [of "1 / 72057594037927936" "- 56" "57 / 800" 5134103575202365]
  by (simp add: power_int_minus_divide)

lemma fl_57_800_times_10000: "fl (5134103575202365 / 72057594037927936 * 10000) = 6267216278323199 / 8796093022208"
  using fl_eqI [of "1 / 8796093022208" "- 43" "5134103575202365 / 72057594037927936 * 10000" 6267216278323199]
  by (simp add: power_int_minus_divide)

lemma fl_23_160: "fl (23 / 160) = 2589569785738035 / 18014398509481984"
  using fl_eqI [of "1 / 36028797018963968" "- 55" "23 / 160" 5179139571476070]
  by (simp add: power_int_minus_divide)

lemma fl_23_160_times_100: "fl (2589569785738035 / 18014398509481984 * 100) = 8092405580431359 / 562949953421312"
  using fl_eqI [of "1 / 562949953421312" "- 49" "2589569785738035 / 18014398509481984 * 100" 8092405580431359]
  by (simp add: power_int_minus_divide)

lemma fl_23_160_times_100_twice: "fl (8092405580431359 / 562949953421312 * 100) = 6322191859711999 / 4398046511104"
  using fl_eqI [of "1 / 4398046511104" "- 42" "8092405580431359 / 562949953421312 * 100" 6322191859711999]
  by (simp add: power_int_minus_divide)


lemma score_43_of_100:
  "fl (jsRound (fl (fl (fl (57 / 100) * 100) * 100)) / 100) = 57"
proof -
  have r: "jsRound (6267216278323199 / 1099511627776) = 5700"
    unfolding jsRound_def by (simp add: floor_unique)
  have f: "fl (5700 / 100) = 57" using fl_numeral [of "num.Bit1 (num.Bit0 (num.Bit0 (num.Bit1 (num.Bit1 num.One))))"] by simp
  show ?thesis
    unfolding fl_57_100 fl_57_100_times_100 fl_57_100_times_100_twice r f ..
qed

lemma score_1_of_3: "fl (jsRound (fl (fl (2 / 3) * 10000)) / 100) = fl (6667 / 100)"
proof -
  have r: "jsRound (3665038759253333 / 549755813888) = 6667"
    unfolding jsRound_def by (simp add: floor_unique)
  show ?thesis unfolding fl_2_3 fl_2_3_times_10000 r ..
qed

lemma score_743_of_800: "fl (jsRound (fl (fl (57 / 800) * 10000)) / 100) = fl (712 / 100)"
proof -
  have r: "jsRound (6267216278323199 / 8796093022208) = 712"
    unfolding jsRound_def by (simp add: floor_unique)
  show ?thesis unfolding fl_57_800 fl_57_800_times_10000 r ..
qed

lemma score_137_of_160:
  "fl (jsRound (fl (fl (fl (23 / 160) * 100) * 100)) / 100) = fl (1437 / 100)"
proof -
  have r: "jsRound (6322191859711999 / 4398046511104) = 1437"
    unfolding jsRound_def by (simp add: floor_unique)
  show ?thesis unfolding fl_23_160 fl_23_160_times_100 fl_23_160_times_100_twice r ..
qed

lemma calculateSimilarityWithThreshold_rounds:
  "calculateSimilarityWithThreshold ''ab'' ''abc'' None = fl (6667 / 100)"
proof -
  have "levenshteinDistance ''ab'' ''abc'' = 1" by code_simp
  then have e: "ed ''ab'' ''abc'' = 1" by (simp add: levenshteinDistance_ed)
  have m: "(of_nat (max (length ''ab'') (length ''abc'')) :: rat) = 3" by simp
  have q: "((3::rat) - of_nat 1) / 3 = 2 / 3" by simp
  have ne: "''ab'' \<noteq> ''abc''" "''ab'' \<noteq> []" "''abc'' \<noteq> []" by simp_all
  show ?thesis
    unfolding calculateSimilarityWithThreshold_None [OF ne] e m q by (rule score_1_of_3)
qed

lemma calculateSimilarityWithThreshold_tie:
  "calculateSimilarityWithThreshold (replicate 57 c) (replicate 800 c) None = fl (712 / 100)"
  "jsRound (((800 - 743) / 800) * 10000) / 100 = 713 / 100"
proof -
  have "ed (replicate 57 c) (replicate (57 + 743) c) = 743" by (rule ed_replicate)
  then have e: "ed (replicate 57 c) (replicate 800 c) = 743" by simp
  have m: "(of_nat (max (length (replicate 57 c)) (length (replicate 800 c))) :: rat) = 800" by simp
  have q: "((800::rat) - of_nat 743) / 800 = 57 / 800" by simp
  have ne: "replicate 57 c \<noteq> replicate 800 c" "replicate 57 c \<noteq> []" "replicate 800 c \<noteq> []"
    by simp_all
  show "calculateSimilarityWithThreshold (replicate 57 c) (replicate 800 c) None = fl (712 / 100)"
    unfolding calculateSimilarityWithThreshold_None [OF ne] e m q by (rule score_743_of_800)
  show "jsRound (((800 - 743) / 800) * 10000) / 100 = 713 / 100"
    unfolding jsRound_def by (simp add: floor_unique)
qed

lemma calculateSimilarity_tie:
  "calculateSimilarity (replicate 23 c) (replicate 160 c) = fl (1437 / 100)"
proof -
  have "ed (replicate 23 c) (replicate (23 + 137) c) = 137" by (rule ed_replicate)
  then have e: "ed (replicate 23 c) (replicate 160 c) = 137" by simp
  have m: "(of_nat (max (length (replicate 23 c)) (length (replicate 160 c))) :: rat) = 160" by simp
  have q: "((160::rat) - of_nat 137) / 160 = 23 / 160" by simp
  have ne: "replicate 23 c \<noteq> replicate 160 c" "replicate 23 c \<noteq> []" "replicate 160 c \<noteq> []"
    by simp_all
  show ?thesis
    unfolding calculateSimilarity_value [OF ne] e m q by (rule score_137_of_160)
qed

text \<open>
  Claim C5. \<open>calculateSimilarityWithThreshold a b minSimilarity\<close> is 100 when \<open>a = b\<close> or both
  are empty and 0 when exactly one is empty; it is 0 when the thresholded distance exceeds the
  ceiling \<open>\<lfloor>maxLen \<cdot> (1 - minSimilarity / 100)\<rfloor>\<close>, and otherwise it is
  \<open>round (((maxLen - distance) / maxLen) \<cdot> 10000) / 100\<close>. The documentation of the function
  says the same of the zero: it is returned for a pair below the threshold. The code
  computes the ceiling in doubles, and the computed product can fall just below the integer
  that the exact product is. \<open>aaaaa\<close> against \<open>aaaab\<close> has distance 1 and \<open>maxLen = 5\<close>; with
  \<open>minSimilarity = 80\<close> the ceiling of the claim is \<open>\<lfloor>5 \<cdot> 0.2\<rfloor> = 1\<close>, the distance does not
  exceed it and the score is 80, which the function itself returns when no \<open>minSimilarity\<close> is
  given. With \<open>minSimilarity = 80\<close> the code computes the ceiling 0 and returns 0 for a pair
  that is at the threshold, not below it.
\<close>

theorem calculateSimilarityWithThreshold_zero_at_threshold:
  "levenshteinDistance ''aaaaa'' ''aaaab'' = 1
   \<and> \<lfloor>of_nat (max (length ''aaaaa'') (length ''aaaab'')) * (1 - (80::rat) / 100)\<rfloor> = 1
   \<and> calculateSimilarityWithThreshold ''aaaaa'' ''aaaab'' None = 80
   \<and> calculateSimilarityWithThreshold ''aaaaa'' ''aaaab'' (Some 80) = 0"
proof -
  have d: "levenshteinDistance ''aaaaa'' ''aaaab'' = 1" by code_simp
  then have e: "ed ''aaaaa'' ''aaaab'' = 1" by (simp add: levenshteinDistance_ed)
  have f: "\<lfloor>of_nat (max (length ''aaaaa'') (length ''aaaab'')) * (1 - (80::rat) / 100)\<rfloor> = 1"
    by (simp add: floor_unique)
  have m: "(of_nat (max (length ''aaaaa'') (length ''aaaab'')) :: rat) = 5" by simp
  have q: "((5::rat) - of_nat 1) / 5 = 4 / 5" by simp
  have ne: "''aaaaa'' \<noteq> ''aaaab''" "''aaaaa'' \<noteq> []" "''aaaab'' \<noteq> []" by simp_all
  have n: "calculateSimilarityWithThreshold ''aaaaa'' ''aaaab'' None = 80"
    unfolding calculateSimilarityWithThreshold_None [OF ne] e m q by (rule score_4_of_5)
  have s: "calculateSimilarityWithThreshold ''aaaaa'' ''aaaab'' (Some 80) = 0"
    unfolding calculateSimilarityWithThreshold_Some [OF ne] e m ceiling_5_at_80 by simp
  show ?thesis using d f n s by simp
qed

section \<open>The pruning filters\<close>

text \<open>
  The frequency test is a lower bound on the edit distance: half the sum of the differences
  of the character counts is at most the distance, so the test never fails a pair whose
  distance is within the ceiling it is given, and neither does the difference of the lengths
  exceed the distance. Whether the ceiling that the drivers compute is the right one is the
  subject of the last section.
\<close>

lemma freqGet_Nil [simp]: "freqGet [] c = 0"
  by (simp add: freqGet_def)

lemma freqGet_freqSet: "freqGet (freqSet freq c n) c' = (if c' = c then n else freqGet freq c')"
  by (induction freq c n rule: freqSet.induct) (auto simp: freqGet_def)

lemma keys_freqSet: "fst ` set (freqSet freq c n) = insert c (fst ` set freq)"
  by (induction freq c n rule: freqSet.induct) auto

lemma distinct_freqSet: "distinct (map fst freq) \<Longrightarrow> distinct (map fst (freqSet freq c n))"
  by (induction freq c n rule: freqSet.induct) (auto simp: keys_freqSet)

lemma countChars_fold:
  "freqGet (fold (\<lambda>c freq. freqSet freq c (freqGet freq c + 1)) str acc) c
     = freqGet acc c + count_list str c
   \<and> fst ` set (fold (\<lambda>c freq. freqSet freq c (freqGet freq c + 1)) str acc)
     = fst ` set acc \<union> set str
   \<and> (distinct (map fst acc) \<longrightarrow>
        distinct (map fst (fold (\<lambda>c freq. freqSet freq c (freqGet freq c + 1)) str acc)))"
proof (induction str arbitrary: acc)
  case Nil
  show ?case by simp
next
  case (Cons x str)
  show ?case
    using Cons [of "freqSet acc x (freqGet acc x + 1)"]
    by (auto simp: freqGet_freqSet keys_freqSet distinct_freqSet)
qed

lemma freqGet_countChars: "freqGet (countChars str) c = count_list str c"
  using countChars_fold [of str "[]" c] by (simp add: countChars_def)

lemma keys_countChars: "set (map fst (countChars str)) = set str"
  using countChars_fold [of str "[]"] by (simp add: countChars_def)

lemma fold_add_sum_list: "fold (\<lambda>c (m::nat). m + f c) xs k = k + sum_list (map f xs)"
  by (induction xs arbitrary: k) simp_all

lemma size_diff_add_left: "size (add_mset x A - B) \<le> Suc (size (A - B))"
proof -
  have "add_mset x A - B \<subseteq># add_mset x (A - B)"
    by (simp add: subseteq_mset_def)
  from size_mset_mono [OF this] show ?thesis by simp
qed

lemma size_diff_add_right: "size (A - add_mset y B) \<le> size (A - B)"
  by (rule size_mset_mono) (simp add: subseteq_mset_def)

lemma size_diff_le_ed: "size (mset xs - mset ys) \<le> ed xs ys"
proof (induction xs ys rule: ed.induct)
  case (1 ys)
  show ?case by simp
next
  case (2 x xs)
  show ?case by simp
next
  case (3 x xs y ys)
  let ?A = "mset xs" and ?B = "mset ys"
  have a: "size (add_mset x ?A - add_mset y ?B) \<le> Suc (size (?A - add_mset y ?B))"
    by (rule size_diff_add_left)
  have b: "size (add_mset x ?A - add_mset y ?B) \<le> size (add_mset x ?A - ?B)"
    by (rule size_diff_add_right)
  have c: "size (add_mset x ?A - add_mset y ?B) \<le> size (?A - ?B) + (if x = y then 0 else 1)"
    using size_diff_add_left [of x ?A ?B] b by simp
  show ?case using a b c "3.IH" by (simp add: min_def)
qed

lemma sum_abs_diff_size:
  "(\<Sum>c\<in>set xs \<union> set ys. nat \<bar>int (count_list xs c) - int (count_list ys c)\<bar>)
     = size (mset xs - mset ys) + size (mset ys - mset xs)"
proof -
  let ?S = "set xs \<union> set ys"
  have 1: "size (mset xs - mset ys) = (\<Sum>c\<in>?S. count (mset xs - mset ys) c)"
    unfolding size_multiset_overloaded_eq
    by (rule sum.mono_neutral_left) (auto simp: not_in_iff dest: in_diffD)
  have 2: "size (mset ys - mset xs) = (\<Sum>c\<in>?S. count (mset ys - mset xs) c)"
    unfolding size_multiset_overloaded_eq
    by (rule sum.mono_neutral_left) (auto simp: not_in_iff dest: in_diffD)
  show ?thesis unfolding 1 2 sum.distrib [symmetric]
    by (rule sum.cong) (auto simp: count_mset)
qed

lemma minEdits_le: 
  "fold (\<lambda>c minEdits. minEdits + nat \<bar>int (freqGet (countChars a) c) - int (freqGet (countChars b) c)\<bar>)
     (remdups (map fst (countChars a) @ map fst (countChars b))) 0 \<le> 2 * ed a b"
proof -
  have "fold (\<lambda>c minEdits. minEdits + nat \<bar>int (freqGet (countChars a) c) - int (freqGet (countChars b) c)\<bar>)
     (remdups (map fst (countChars a) @ map fst (countChars b))) 0
    = (\<Sum>c\<in>set a \<union> set b. nat \<bar>int (count_list a c) - int (count_list b c)\<bar>)"
    unfolding fold_add_sum_list freqGet_countChars
    using keys_countChars [of a] keys_countChars [of b]
    by (simp add: sum_list_distinct_conv_sum_set)
  also have "\<dots> = size (mset a - mset b) + size (mset b - mset a)" by (rule sum_abs_diff_size)
  also have "\<dots> \<le> 2 * ed a b"
    using size_diff_le_ed [of a b] size_diff_le_ed [of b a] by (simp add: ed_sym [of b a])
  finally show ?thesis .
qed

lemma failsFrequencyCheck_sound:
  assumes "of_nat (ed a b) \<le> c"
  shows "\<not> failsFrequencyCheck a b c"
proof -
  let ?m = "fold (\<lambda>c minEdits. minEdits + nat \<bar>int (freqGet (countChars a) c) - int (freqGet (countChars b) c)\<bar>)
     (remdups (map fst (countChars a) @ map fst (countChars b))) 0"
  have "(of_nat ?m :: rat) \<le> of_nat (2 * ed a b)"
    using minEdits_le [of a b] by (rule of_nat_mono)
  then have "(of_nat ?m :: rat) / 2 \<le> of_nat (ed a b)" by simp
  with assms have "\<not> (of_nat ?m :: rat) / 2 > c" by simp
  then show ?thesis unfolding failsFrequencyCheck_def Let_def .
qed

lemma max_minus_min_le_ed: "max (length a) (length b) - min (length a) (length b) \<le> ed a b"
  using ed_length_diff [where xs = a and ys = b] by (simp add: max_def min_def)

text \<open>
  The ratio filter compares \<open>(minLength / maxLength) \<cdot> 100\<close> with \<open>minSimilarity\<close>. For the
  lengths 57 and 100 the double quotient times 100 is 56.99999999999999: at
  \<open>minSimilarity = 57\<close> the filter rejects 57 copies of a character against 100 copies of it,
  a pair that \<open>calculateSimilarity\<close> scores 57.
\<close>

lemma ratioFilter_rejects_pair_at_threshold:
  "calculateSimilarity (replicate 57 c) (replicate 100 c) = 57
   \<and> ratioFilterRejects (replicate 57 c) (replicate 100 c) 57"
proof -
  have "ed (replicate 57 c) (replicate (57 + 43) c) = 43" by (rule ed_replicate)
  then have e: "ed (replicate 57 c) (replicate 100 c) = 43" by simp
  have m: "(of_nat (max (length (replicate 57 c)) (length (replicate 100 c))) :: rat) = 100"
    "(of_nat (min (length (replicate 57 c)) (length (replicate 100 c))) :: rat) = 57" by simp_all
  have q: "((100::rat) - of_nat 43) / 100 = 57 / 100" by simp
  have ne: "replicate 57 c \<noteq> replicate 100 c" "replicate 57 c \<noteq> []" "replicate 100 c \<noteq> []"
    by simp_all
  have s: "calculateSimilarity (replicate 57 c) (replicate 100 c) = 57"
    unfolding calculateSimilarity_value [OF ne] e m q by (rule score_43_of_100)
  have r: "ratioFilterRejects (replicate 57 c) (replicate 100 c) 57"
    unfolding ratioFilterRejects_def Let_def m fl_57_100 fl_57_100_times_100 by simp
  show ?thesis using s r by simp
qed

section \<open>The drivers as scans of the pairs in order\<close>

lemma fold_push: "fold (\<lambda>j res. pushResult (f j) res) js res = res @ List.map_filter f js"
  by (induction js arbitrary: res) (auto simp: pushResult_def List.map_filter_simps split: option.splits)

lemma fold_fold_push:
  "fold (\<lambda>i res. fold (\<lambda>j res. pushResult (f i j) res) (g i) res) is res
     = res @ concat (map (\<lambda>i. List.map_filter (f i) (g i)) is)"
  by (induction "is" arbitrary: res) (simp_all add: fold_push)

lemma map_filter_concat: "List.map_filter f (concat xss) = concat (map (List.map_filter f) xss)"
  by (induction xss) (simp_all add: List.map_filter_def)

lemma map_filter_map: "List.map_filter f (map g xs) = List.map_filter (f \<circ> g) xs"
  by (simp add: List.map_filter_def filter_map comp_def)

lemma rows_pairOrder:
  "concat (map (\<lambda>i. List.map_filter (h i) [i + 1..<n]) [s..<e])
     = List.map_filter (\<lambda>(i, j). h i j) (concat (map (\<lambda>i. map (Pair i) [i + 1..<n]) [s..<e]))"
  by (simp add: map_filter_concat map_filter_map comp_def)

lemma map_filter_if:
  "List.map_filter (\<lambda>(i, j). if P i j then Some (g i j) else None) xs
     = map (\<lambda>(i, j). g i j) (filter (\<lambda>(i, j). P i j) xs)"
  by (induction xs) (auto simp: List.map_filter_simps)

lemma comparePair_filters:
  "comparePair minSim normalize' exclSelf fs i j =
     (if \<not> (exclSelf \<and> sameIdentity (fs ! i) (fs ! j)) \<and> qualifies minSim normalize' (fs ! i) (fs ! j)
      then Some (emittedResult minSim normalize' (fs ! i) (fs ! j)) else None)"
  unfolding comparePair_def qualifies_def emittedResult_def sameIdentity_def comparedText_def
    ratioFilterRejects_def lengthDiffFilterRejects_def frequencyFilterRejects_def lineCount_def Let_def
  by (cases normalize') auto

lemma compareAll_eq:
  "compareAll fs opts =
     sortByScore (pairScan (optExcludeSelf opts) (optMinSimilarity opts) (optNormalize opts)
                    (filterByLines (optMinLines opts) fs))"
  unfolding compareAll_def Let_def pairScan_def pairOrder_def
    optExcludeSelf_def [symmetric] optMinSimilarity_def [symmetric] optNormalize_def [symmetric]
    optMinLines_def [symmetric] fold_fold_push rows_pairOrder comparePair_filters map_filter_if
  by simp

lemma workerPair_filters:
  "workerPair minSim normalize' fs i j =
     (if qualifies minSim normalize' (fs ! i) (fs ! j)
      then Some \<lparr>idx1 = i, idx2 = j,
                 normalizedScore = SimilarityResult.normalizedScore (emittedResult minSim normalize' (fs ! i) (fs ! j)),
                 rawScore = similarityScore (emittedResult minSim normalize' (fs ! i) (fs ! j)),
                 lines1 = lineCount (fs ! i), lines2 = lineCount (fs ! j)\<rparr>
      else None)"
  unfolding workerPair_def qualifies_def emittedResult_def comparedText_def
    ratioFilterRejects_def lengthDiffFilterRejects_def frequencyFilterRejects_def lineCount_def Let_def
  by (cases normalize') auto

lemma toSimilarityResult_worker:
  "toSimilarityResult fs
     \<lparr>idx1 = i, idx2 = j,
      normalizedScore = SimilarityResult.normalizedScore (emittedResult minSim normalize' (fs ! i) (fs ! j)),
      rawScore = similarityScore (emittedResult minSim normalize' (fs ! i) (fs ! j)),
      lines1 = lineCount (fs ! i), lines2 = lineCount (fs ! j)\<rparr>
   = emittedResult minSim normalize' (fs ! i) (fs ! j)"
  by (simp add: toSimilarityResult_def emittedResult_def)

lemma map_toSimilarityResult:
  "map (toSimilarityResult fs) (List.map_filter (\<lambda>(i, j). workerPair minSim normalize' fs i j) ps)
     = map (\<lambda>(i, j). emittedResult minSim normalize' (fs ! i) (fs ! j))
         (filter (\<lambda>(i, j). qualifies minSim normalize' (fs ! i) (fs ! j)) ps)"
  by (induction ps) (auto simp: List.map_filter_simps workerPair_filters toSimilarityResult_worker)

lemma worker_rows:
  "worker fs startIdx endIdx minSim normalize' =
     List.map_filter (\<lambda>(i, j). workerPair minSim normalize' fs i j)
       (concat (map (\<lambda>i. map (Pair i) [i + 1..<length fs]) [startIdx..<endIdx]))"
  unfolding worker_def fold_fold_push rows_pairOrder by simp

lemma upt_split: "a \<le> b \<Longrightarrow> b \<le> c \<Longrightarrow> [a..<c] = [a..<b] @ [b..<c]"
  by (metis le_Suc_ex upt_add_eq_append)

lemma dispatch_concat:
  assumes "0 < chunkSize"
  shows "concat (dispatch fs chunkSize minSim normalize' [w..<numWorkers]) =
     List.map_filter (\<lambda>(i, j). workerPair minSim normalize' fs i j)
       (concat (map (\<lambda>i. map (Pair i) [i + 1..<length fs])
          [min (w * chunkSize) (length fs)..<min (numWorkers * chunkSize) (length fs)]))"
proof (induction "numWorkers - w" arbitrary: w)
  case 0
  then have le: "numWorkers \<le> w" by simp
  then have "numWorkers * chunkSize \<le> w * chunkSize" by (rule mult_le_mono1)
  then have "min (numWorkers * chunkSize) (length fs) \<le> min (w * chunkSize) (length fs)"
    by (rule min.mono [OF _ order_refl])
  then have e: "[min (w * chunkSize) (length fs)..<min (numWorkers * chunkSize) (length fs)] = []"
    by simp
  have d: "[w..<numWorkers] = []" using le by simp
  show ?case unfolding e d by (simp add: List.map_filter_simps)
next
  case (Suc n)
  then have w: "w < numWorkers" and n: "n = numWorkers - Suc w" by simp_all
  have upt: "[w..<numWorkers] = w # [Suc w..<numWorkers]" using w by (simp add: upt_conv_Cons)
  show ?case
  proof (cases "w * chunkSize \<ge> length fs")
    case True
    then have "numWorkers * chunkSize \<ge> length fs"
      using w by (meson less_imp_le_nat mult_le_mono1 order_trans)
    with True show ?thesis unfolding upt by (simp add: List.map_filter_simps)
  next
    case False
    let ?a = "w * chunkSize" and ?b = "min (Suc w * chunkSize) (length fs)"
    let ?c = "min (numWorkers * chunkSize) (length fs)"
    have ab: "?a \<le> ?b" using False by simp
    have "Suc w \<le> numWorkers" using w by simp
    then have "Suc w * chunkSize \<le> numWorkers * chunkSize" by (rule mult_le_mono1)
    then have bc: "?b \<le> ?c" by (rule min.mono [OF _ order_refl])
    have a: "min ?a (length fs) = ?a" using False by simp
    have "concat (dispatch fs chunkSize minSim normalize' [w..<numWorkers])
        = worker fs ?a ?b minSim normalize'
          @ concat (dispatch fs chunkSize minSim normalize' [Suc w..<numWorkers])"
      unfolding upt using False by (simp add: Let_def)
    also have "\<dots> = List.map_filter (\<lambda>(i, j). workerPair minSim normalize' fs i j)
       (concat (map (\<lambda>i. map (Pair i) [i + 1..<length fs]) ([?a..<?b] @ [?b..<?c])))"
      unfolding worker_rows Suc.hyps(1) [OF n] by (simp add: List.map_filter_def)
    finally show ?thesis unfolding a upt_split [OF ab bc, symmetric] .
  qed
qed

lemma chunks_cover:
  assumes "0 < numWorkers"
  shows "n \<le> numWorkers * nat \<lceil>(of_nat n :: rat) / of_nat numWorkers\<rceil>"
proof -
  let ?c = "\<lceil>(of_nat n :: rat) / of_nat numWorkers\<rceil>"
  have 1: "(of_nat n :: rat) / of_nat numWorkers \<le> of_int ?c" by (rule le_of_int_ceiling)
  have "(0::rat) \<le> of_nat n / of_nat numWorkers" by simp
  from this 1 have "(0::rat) \<le> of_int ?c" by (rule order_trans)
  then have c0: "0 \<le> ?c" by (simp only: of_int_0_le_iff)
  have pos: "(0::rat) < of_nat numWorkers" using assms by simp
  have 2: "(of_nat n :: rat) \<le> of_int ?c * of_nat numWorkers"
    using 1 by (simp only: pos_divide_le_eq [OF pos])
  have "(of_int (int n) :: rat) \<le> of_int (?c * int numWorkers)" using 2 by simp
  then have "int n \<le> ?c * int numWorkers" by (simp only: of_int_le_iff)
  also have "\<dots> = int (numWorkers * nat ?c)" using c0 by simp
  finally show ?thesis by (simp only: of_nat_le_iff)
qed

lemma filterByLines_idem: "filterByLines n (filterByLines n fs) = filterByLines n fs"
  by (simp add: filterByLines_def)

lemma compareAllParallel_eq:
  "compareAllParallel numCores fs opts =
     sortByScore (pairScan (optExcludeSelf opts \<and> length (filterByLines (optMinLines opts) fs) < 100)
                    (optMinSimilarity opts) (optNormalize opts)
                    (filterByLines (optMinLines opts) fs))"
proof (cases "length (filterByLines (optMinLines opts) fs) < 100")
  case True
  then show ?thesis
    unfolding compareAllParallel_def Let_def optMinLines_def [symmetric]
    by (simp add: compareAll_eq filterByLines_idem)
next
  case False
  let ?F = "filterByLines (optMinLines opts) fs"
  let ?W = "nat (max 1 (min (int numCores - 1) 8))"
  let ?cs = "nat \<lceil>(of_nat (length ?F) :: rat) / of_nat ?W\<rceil>"
  have W: "0 < ?W" by simp
  have cover: "length ?F \<le> ?W * ?cs" using chunks_cover [OF W] .
  have big: "100 \<le> length ?F" using False by simp
  have cs: "0 < ?cs"
  proof (rule ccontr)
    assume "\<not> 0 < ?cs"
    then have "?W * ?cs = 0" by simp
    with cover have "length ?F \<le> 0" by (simp only:)
    with big show False by simp
  qed
  have "concat (dispatch ?F ?cs (optMinSimilarity opts) (optNormalize opts) [0..<?W])
      = List.map_filter (\<lambda>(i, j). workerPair (optMinSimilarity opts) (optNormalize opts) ?F i j)
          (pairOrder (length ?F))"
    unfolding dispatch_concat [OF cs] pairOrder_def using cover by (simp add: min_absorb2)
  then show ?thesis
    using False
    unfolding compareAllParallel_def Let_def optMinLines_def [symmetric]
      optMinSimilarity_def [symmetric] optNormalize_def [symmetric] pairScan_def
    by (simp add: map_toSimilarityResult)
qed

section \<open>What the drivers return\<close>

lemma set_pairOrder: "set (pairOrder n) = {(i, j). i < j \<and> j < n}"
  unfolding pairOrder_def by fastforce

lemma set_sortByScore [simp]: "set (sortByScore rs) = set rs"
  by (simp add: sortByScore_def)

lemma set_pairScan:
  "set (pairScan exclSelf minSim normalize' fs) =
     {emittedResult minSim normalize' (fs ! i) (fs ! j) | i j.
        i < j \<and> j < length fs \<and> \<not> (exclSelf \<and> sameIdentity (fs ! i) (fs ! j))
        \<and> qualifies minSim normalize' (fs ! i) (fs ! j)}"
  unfolding pairScan_def by (auto simp: set_pairOrder image_iff)

lemma sameIdentity_functionReference [simp]:
  "sameIdentity (functionReference f) (functionReference g) = sameIdentity f g"
  by (simp add: sameIdentity_def functionReference_def)

lemma function_emittedResult [simp]:
  "function1 (emittedResult minSim normalize' f g) = functionReference f"
  "function2 (emittedResult minSim normalize' f g) = functionReference g"
  "SimilarityResult.normalizedScore (emittedResult minSim normalize' f g)
     = calculateSimilarityWithThreshold (comparedText normalize' f) (comparedText normalize' g) (Some minSim)"
  "SimilarityResult.lines1 (emittedResult minSim normalize' f g) = lineCount f"
  "SimilarityResult.lines2 (emittedResult minSim normalize' f g) = lineCount g"
  by (simp_all add: emittedResult_def)

lemma lineCount_functionReference [simp]: "lineCount (functionReference f) = lineCount f"
  by (simp add: lineCount_def functionReference_def)

lemma compareAll_excludes_self:
  assumes "optExcludeSelf opts" "r \<in> set (compareAll fs opts)"
  shows "\<not> sameIdentity (function1 r) (function2 r)"
  using assms unfolding compareAll_eq by (auto simp: set_pairScan)

lemma qualifies_zero:
  assumes "length (comparedText normalize' f) < 2 ^ 53" "length (comparedText normalize' g) < 2 ^ 53"
  shows "qualifies 0 normalize' f g"
proof -
  let ?a = "comparedText normalize' f" and ?b = "comparedText normalize' g"
  have "max (length ?a) (length ?b) < 2 ^ 53" using assms by simp
  then have c: "\<lfloor>fl (of_nat (max (length ?a) (length ?b)) * fl (1 - fl (0 / 100)))\<rfloor>
                 = int (max (length ?a) (length ?b))"
    by (simp add: fl_of_nat)
  have "0 \<le> fl (fl (of_nat (min (length ?a) (length ?b)) / of_nat (max (length ?a) (length ?b))) * 100)"
    by (intro fl_nonneg mult_nonneg_nonneg) simp_all
  then have "\<not> ratioFilterRejects ?a ?b 0" by (simp add: ratioFilterRejects_def Let_def not_less)
  moreover have "\<not> lengthDiffFilterRejects ?a ?b 0"
    unfolding lengthDiffFilterRejects_def Let_def c by simp
  moreover have "\<not> frequencyFilterRejects ?a ?b 0" by (simp add: frequencyFilterRejects_def)
  moreover have "0 \<le> calculateSimilarityWithThreshold ?a ?b (Some 0)"
    using calculateSimilarityWithThreshold_range by blast
  ultimately show ?thesis by (simp add: qualifies_def)
qed

lemma length_exampleFragments: "length exampleFragments = 100"
  by (simp add: exampleFragments_def)

lemma defaultOptions_simps [simp]:
  "optMinSimilarity defaultOptions = 0" "optMinLines defaultOptions = 0"
  "optNormalize defaultOptions" "optExcludeSelf defaultOptions"
  by (simp_all add: defaultOptions_def optMinSimilarity_def optMinLines_def optNormalize_def
      optExcludeSelf_def)

lemma filterByLines_zero [simp]: "filterByLines 0 fs = fs"
  by (simp add: filterByLines_def)

lemma example_pair_in_parallel:
  "emittedResult 0 True exampleMethod exampleBody
     \<in> set (compareAllParallel numCores exampleFragments defaultOptions)"
proof -
  have "emittedResult 0 True (exampleFragments ! 0) (exampleFragments ! 1)
      \<in> set (pairScan False 0 True exampleFragments)"
  proof -
    have "qualifies 0 True (exampleFragments ! 0) (exampleFragments ! 1)"
      by (rule qualifies_zero)
        (simp_all add: exampleFragments_def comparedText_def exampleMethod_def exampleBody_def)
    then show ?thesis
      unfolding set_pairScan using length_exampleFragments by fastforce
  qed
  then show ?thesis
    unfolding compareAllParallel_eq by (simp add: length_exampleFragments) (simp add: exampleFragments_def)
qed

lemma example_pair_same_identity:
  "sameIdentity (function1 (emittedResult 0 True exampleMethod exampleBody))
                (function2 (emittedResult 0 True exampleMethod exampleBody))"
  by (simp add: sameIdentity_def functionReference_def exampleMethod_def exampleBody_def)

lemma example_pair_not_in_sequential:
  "emittedResult 0 True exampleMethod exampleBody
     \<notin> set (compareAll exampleFragments defaultOptions)"
  using compareAll_excludes_self [of defaultOptions "emittedResult 0 True exampleMethod exampleBody" exampleFragments]
    example_pair_same_identity by auto

text \<open>
  Claim C6. With \<open>excludeSelf = true\<close>, two records that share identity (same file path and same
  start line) are never paired with each other in a result of \<open>compareAll\<close> or of
  \<open>compareAllParallel\<close>. The sequential driver keeps this promise (\<open>compareAll_excludes_self\<close>
  above). The parallel driver reads \<open>excludeSelf\<close> from the options and never uses it, and the
  worker has no identity test, so from 100 fragments on the promise is broken: on
  \<open>exampleFragments\<close> with the default options, whatever the number of cores, the result
  contains the pair of the method and its own function expression.
\<close>

theorem parallel_emits_self_pair:
  "optExcludeSelf defaultOptions
   \<and> emittedResult 0 True exampleMethod exampleBody
        \<in> set (compareAllParallel numCores exampleFragments defaultOptions)
   \<and> filePath (function1 (emittedResult 0 True exampleMethod exampleBody))
        = filePath (function2 (emittedResult 0 True exampleMethod exampleBody))
   \<and> startLine (function1 (emittedResult 0 True exampleMethod exampleBody))
        = startLine (function2 (emittedResult 0 True exampleMethod exampleBody))"
  using example_pair_in_parallel example_pair_same_identity by (simp add: sameIdentity_def)

lemma parallel_parity:
  assumes "\<not> optExcludeSelf opts \<or> length (filterByLines (optMinLines opts) fs) < 100"
  shows "compareAllParallel numCores fs opts = compareAll fs opts"
  using assms unfolding compareAllParallel_eq compareAll_eq by auto

text \<open>
  Claim C1. \<open>compareAllParallel\<close> returns the same list as \<open>compareAll\<close> on the same input. The
  two agree whenever fewer than 100 fragments survive the \<open>minLines\<close> filter or \<open>excludeSelf\<close> is
  off (\<open>parallel_parity\<close> above). With \<open>excludeSelf\<close> on and 100 fragments they differ as soon
  as two fragments share identity, for the reason given under C6: on \<open>exampleFragments\<close> with
  the default options the two lists are different.
\<close>

theorem parallel_differs_from_sequential:
  "compareAllParallel numCores exampleFragments defaultOptions
     \<noteq> compareAll exampleFragments defaultOptions"
  using example_pair_in_parallel [of numCores] example_pair_not_in_sequential by metis

lemma sorted_sortByScore:
  "sorted_wrt (\<lambda>a b. SimilarityResult.normalizedScore a \<ge> SimilarityResult.normalizedScore b)
     (sortByScore rs)"
proof -
  have "sorted (map (\<lambda>r. - SimilarityResult.normalizedScore r) (sortByScore rs))"
    unfolding sortByScore_def by (rule sorted_sort_key)
  then show ?thesis by (simp add: sorted_map)
qed

lemma stable_sortByScore:
  "filter (\<lambda>r. SimilarityResult.normalizedScore r = s) (sortByScore rs)
     = filter (\<lambda>r. SimilarityResult.normalizedScore r = s) rs"
  using sort_key_stable [of "\<lambda>r. - SimilarityResult.normalizedScore r" "- s" rs]
  by (simp add: sortByScore_def)

lemma sorted_pairOrder:
  "sorted_wrt (\<lambda>p q. fst p < fst q \<or> (fst p = fst q \<and> snd p < snd q)) (pairOrder n)"
proof -
  have rows: "sorted_wrt (\<lambda>p q. fst p < fst q \<or> (fst p = fst q \<and> snd p < snd q))
      (concat (map (\<lambda>i. map (Pair i) [i + 1..<n]) [a..<b]))" for a b
  proof (induction b)
    case 0
    show ?case by simp
  next
    case (Suc b)
    show ?case
    proof (cases "a \<le> b")
      case False
      then show ?thesis by simp
    next
      case True
      have row: "sorted_wrt (\<lambda>p q. fst p < fst q \<or> (fst p = fst q \<and> snd p < snd q))
          (map (Pair b) [b + 1..<n])"
        by (simp add: sorted_wrt_map sorted_wrt_upt)
      show ?thesis using True Suc row by (auto simp: sorted_wrt_append)
    qed
  qed
  show ?thesis unfolding pairOrder_def by (rule rows)
qed

text \<open>
  Claim C7. The list returned by \<open>compareAll\<close> and the list returned by \<open>compareAllParallel\<close>
  are sorted by descending \<open>normalizedScore\<close>, and results of equal score keep the order of
  their pairs, lower \<open>(i, j)\<close> first: for every score \<open>s\<close> the results with that score are, in
  this order, those of \<open>pairScan\<close>, which lists the qualifying pairs along \<open>pairOrder\<close>, and
  \<open>pairOrder\<close> is strictly increasing in the lexicographic order. The number of cores, and
  with it the partition of the rows among the workers, does not occur on the right-hand side.
\<close>

theorem results_sorted_stable:
  "sorted_wrt (\<lambda>a b. SimilarityResult.normalizedScore a \<ge> SimilarityResult.normalizedScore b)
     (compareAll fs opts)
   \<and> sorted_wrt (\<lambda>a b. SimilarityResult.normalizedScore a \<ge> SimilarityResult.normalizedScore b)
     (compareAllParallel numCores fs opts)
   \<and> filter (\<lambda>r. SimilarityResult.normalizedScore r = s) (compareAll fs opts)
     = filter (\<lambda>r. SimilarityResult.normalizedScore r = s)
         (pairScan (optExcludeSelf opts) (optMinSimilarity opts) (optNormalize opts)
            (filterByLines (optMinLines opts) fs))
   \<and> filter (\<lambda>r. SimilarityResult.normalizedScore r = s) (compareAllParallel numCores fs opts)
     = filter (\<lambda>r. SimilarityResult.normalizedScore r = s)
         (pairScan (optExcludeSelf opts \<and> length (filterByLines (optMinLines opts) fs) < 100)
            (optMinSimilarity opts) (optNormalize opts) (filterByLines (optMinLines opts) fs))
   \<and> sorted_wrt (\<lambda>p q. fst p < fst q \<or> (fst p = fst q \<and> snd p < snd q)) (pairOrder n)"
  unfolding compareAll_eq compareAllParallel_eq
  by (simp add: sorted_sortByScore stable_sortByScore sorted_pairOrder)

lemma filterByLines_lineCount:
  "0 < n \<Longrightarrow> f \<in> set (filterByLines n fs) \<Longrightarrow> n \<le> lineCount f"
  by (simp add: filterByLines_def lineCount_def)

lemma filterByLines_filter:
  "0 < n \<Longrightarrow> filterByLines n fs = filter (\<lambda>f. n \<le> lineCount f) fs"
  by (simp add: filterByLines_def lineCount_def)

lemma optMinLines_reset [simp]:
  "optMinLines (opts\<lparr>minLines := None\<rparr>) = 0"
  "optMinSimilarity (opts\<lparr>minLines := x\<rparr>) = optMinSimilarity opts"
  "optNormalize (opts\<lparr>minLines := x\<rparr>) = optNormalize opts"
  "optExcludeSelf (opts\<lparr>minLines := x\<rparr>) = optExcludeSelf opts"
  by (simp_all add: optMinLines_def optMinSimilarity_def optNormalize_def optExcludeSelf_def)

text \<open>
  Claim C8. With \<open>minLines > 0\<close>, both fragments of every result of \<open>compareAll\<close> have a line
  count (\<open>endLine - startLine + 1\<close>) of at least \<open>minLines\<close>, so a shorter fragment appears in no
  result; and the filter is applied once, before the pairs are visited, and keeps the order
  of the survivors: \<open>compareAll\<close> returns what it returns on the filtered sequence with the
  \<open>minLines\<close> option taken away.
\<close>

theorem minLines_prefilter:
  assumes "0 < optMinLines opts"
  shows "(r \<in> set (compareAll fs opts) \<longrightarrow>
            optMinLines opts \<le> lineCount (function1 r) \<and> optMinLines opts \<le> lineCount (function2 r))
       \<and> compareAll fs opts
           = compareAll (filter (\<lambda>f. optMinLines opts \<le> lineCount f) fs) (opts\<lparr>minLines := None\<rparr>)"
proof (intro conjI impI)
  assume "r \<in> set (compareAll fs opts)"
  then obtain i j where ij: "i < j" "j < length (filterByLines (optMinLines opts) fs)"
    and r: "r = emittedResult (optMinSimilarity opts) (optNormalize opts)
                 (filterByLines (optMinLines opts) fs ! i) (filterByLines (optMinLines opts) fs ! j)"
    unfolding compareAll_eq by (auto simp: set_pairScan)
  have "filterByLines (optMinLines opts) fs ! i \<in> set (filterByLines (optMinLines opts) fs)"
    "filterByLines (optMinLines opts) fs ! j \<in> set (filterByLines (optMinLines opts) fs)"
    using ij by simp_all
  then show "optMinLines opts \<le> lineCount (function1 r)" "optMinLines opts \<le> lineCount (function2 r)"
    unfolding r using filterByLines_lineCount [OF assms] by simp_all
next
  show "compareAll fs opts
      = compareAll (filter (\<lambda>f. optMinLines opts \<le> lineCount f) fs) (opts\<lparr>minLines := None\<rparr>)"
    unfolding compareAll_eq by (simp add: filterByLines_filter [OF assms])
qed

theorem minLines_prefilter_witness:
  "0 < optMinLines (defaultOptions\<lparr>minLines := Some 5\<rparr>)
   \<and> emittedResult 0 True (longFragment 10) (longFragment 30)
        \<in> set (compareAll [shortFragment, longFragment 10, longFragment 30]
                 (defaultOptions\<lparr>minLines := Some 5\<rparr>))
   \<and> optMinLines (defaultOptions\<lparr>minLines := Some 5\<rparr>)
        \<le> lineCount (function1 (emittedResult 0 True (longFragment 10) (longFragment 30)))
   \<and> optMinLines (defaultOptions\<lparr>minLines := Some 5\<rparr>)
        \<le> lineCount (function2 (emittedResult 0 True (longFragment 10) (longFragment 30)))
   \<and> lineCount shortFragment = 3"
proof -
  let ?opts = "defaultOptions\<lparr>minLines := Some 5\<rparr>"
  let ?fs = "[shortFragment, longFragment 10, longFragment 30]"
  have o: "optMinLines ?opts = 5" "optMinSimilarity ?opts = 0" "optNormalize ?opts" "optExcludeSelf ?opts"
    by (simp_all add: optMinLines_def)
  have m: "0 < optMinLines ?opts" using o by simp
  have F: "filterByLines 5 ?fs = [longFragment 10, longFragment 30]"
    by (simp add: filterByLines_def shortFragment_def longFragment_def)
  have "\<not> sameIdentity (longFragment 10) (longFragment 30)"
    by (simp add: sameIdentity_def longFragment_def)
  moreover have "qualifies 0 True (longFragment 10) (longFragment 30)"
    by (rule qualifies_zero) (simp_all add: comparedText_def longFragment_def)
  ultimately have "emittedResult 0 True ([longFragment 10, longFragment 30] ! 0) ([longFragment 10, longFragment 30] ! 1)
      \<in> set (pairScan True 0 True [longFragment 10, longFragment 30])"
    unfolding set_pairScan by fastforce
  then have r: "emittedResult 0 True (longFragment 10) (longFragment 30) \<in> set (compareAll ?fs ?opts)"
    unfolding compareAll_eq o by (simp add: F)
  have s: "lineCount shortFragment = 3" by (simp add: lineCount_def shortFragment_def)
  from minLines_prefilter [OF m, of "emittedResult 0 True (longFragment 10) (longFragment 30)" ?fs] r m s
  show ?thesis by blast
qed

lemma filter_nth_single:
  assumes "k < length (filter P xs)"
  shows "\<exists>k'<length xs. xs ! k' = filter P xs ! k"
proof -
  have "filter P xs ! k \<in> set xs" using assms nth_mem by fastforce
  then show ?thesis by (metis in_set_conv_nth)
qed

lemma filter_nth_pair:
  "i < j \<Longrightarrow> j < length (filter P xs) \<Longrightarrow>
     \<exists>i' j'. i' < j' \<and> j' < length xs \<and> xs ! i' = filter P xs ! i \<and> xs ! j' = filter P xs ! j"
proof (induction xs arbitrary: i j)
  case Nil
  then show ?case by simp
next
  case (Cons x xs)
  show ?case
  proof (cases "P x")
    case False
    with Cons.prems have "j < length (filter P xs)" by simp
    from Cons.IH [OF Cons.prems(1) this] obtain i' j' where
      "i' < j'" "j' < length xs" "xs ! i' = filter P xs ! i" "xs ! j' = filter P xs ! j" by blast
    with False show ?thesis by (intro exI [of _ "Suc i'"] exI [of _ "Suc j'"]) simp
  next
    case True
    from Cons.prems obtain j0 where j: "j = Suc j0" by (cases j) auto
    with True Cons.prems have j0: "j0 < length (filter P xs)" by simp
    show ?thesis
    proof (cases i)
      case 0
      from filter_nth_single [OF j0] obtain k where "k < length xs" "xs ! k = filter P xs ! j0"
        by blast
      with 0 j True show ?thesis by (intro exI [of _ 0] exI [of _ "Suc k"]) simp
    next
      case (Suc i0)
      with Cons.prems j have "i0 < j0" by simp
      from Cons.IH [OF this j0] obtain i' j' where
        "i' < j'" "j' < length xs" "xs ! i' = filter P xs ! i0" "xs ! j' = filter P xs ! j0" by blast
      with Suc j True show ?thesis by (intro exI [of _ "Suc i'"] exI [of _ "Suc j'"]) simp
    qed
  qed
qed

lemma filterByLines_nth_pair:
  assumes "i < j" "j < length (filterByLines n fs)"
  shows "\<exists>i' j'. i' < j' \<and> j' < length fs \<and> fs ! i' = filterByLines n fs ! i
           \<and> fs ! j' = filterByLines n fs ! j"
proof (cases "0 < n")
  case True
  then show ?thesis using assms filter_nth_pair [of i j _ fs] by (simp add: filterByLines_def)
next
  case False
  then show ?thesis using assms by (auto simp: filterByLines_def)
qed

lemma pairScan_invariants:
  assumes "r \<in> set (pairScan exclSelf minSim normalize' (filterByLines n fs))"
  shows "0 \<le> SimilarityResult.normalizedScore r \<and> SimilarityResult.normalizedScore r \<le> 100
       \<and> minSim \<le> SimilarityResult.normalizedScore r
       \<and> (\<exists>i j. i < j \<and> j < length fs \<and> function1 r = functionReference (fs ! i)
                  \<and> function2 r = functionReference (fs ! j))"
proof -
  let ?F = "filterByLines n fs"
  from assms obtain i j where ij: "i < j" "j < length ?F"
    and q: "qualifies minSim normalize' (?F ! i) (?F ! j)"
    and r: "r = emittedResult minSim normalize' (?F ! i) (?F ! j)"
    by (auto simp: set_pairScan)
  from filterByLines_nth_pair [OF ij] obtain i' j' where
    "i' < j'" "j' < length fs" "fs ! i' = ?F ! i" "fs ! j' = ?F ! j" by blast
  then have "\<exists>i j. i < j \<and> j < length fs \<and> function1 r = functionReference (fs ! i)
                  \<and> function2 r = functionReference (fs ! j)"
    unfolding r by (intro exI [of _ i'] exI [of _ j']) simp
  moreover have "minSim \<le> SimilarityResult.normalizedScore r"
    using q unfolding r by (simp add: qualifies_def)
  moreover have "0 \<le> SimilarityResult.normalizedScore r \<and> SimilarityResult.normalizedScore r \<le> 100"
    unfolding r using calculateSimilarityWithThreshold_range by simp
  ultimately show ?thesis by blast
qed

text \<open>
  Claim C9. Every result of \<open>compareAll\<close> or of \<open>compareAllParallel\<close> has a \<open>normalizedScore\<close>
  between 0 and 100 that is at least the configured \<open>minSimilarity\<close>, and its \<open>function1\<close> and
  \<open>function2\<close> refer to the fragments at two indices \<open>i < j\<close> of the original sequence.
\<close>

theorem result_invariants:
  assumes "r \<in> set (compareAll fs opts) \<or> r \<in> set (compareAllParallel numCores fs opts)"
  shows "0 \<le> SimilarityResult.normalizedScore r \<and> SimilarityResult.normalizedScore r \<le> 100
       \<and> optMinSimilarity opts \<le> SimilarityResult.normalizedScore r
       \<and> (\<exists>i j. i < j \<and> j < length fs \<and> function1 r = functionReference (fs ! i)
                  \<and> function2 r = functionReference (fs ! j))"
  using assms pairScan_invariants unfolding compareAll_eq compareAllParallel_eq
  by (metis set_sortByScore)

theorem result_invariants_witness:
  "(emittedResult 0 True exampleMethod exampleBody \<in> set (compareAll exampleFragments defaultOptions)
    \<or> emittedResult 0 True exampleMethod exampleBody
         \<in> set (compareAllParallel 4 exampleFragments defaultOptions))
   \<and> 0 \<le> SimilarityResult.normalizedScore (emittedResult 0 True exampleMethod exampleBody)
   \<and> SimilarityResult.normalizedScore (emittedResult 0 True exampleMethod exampleBody) \<le> 100
   \<and> optMinSimilarity defaultOptions
        \<le> SimilarityResult.normalizedScore (emittedResult 0 True exampleMethod exampleBody)"
proof -
  have h: "emittedResult 0 True exampleMethod exampleBody \<in> set (compareAll exampleFragments defaultOptions)
    \<or> emittedResult 0 True exampleMethod exampleBody
         \<in> set (compareAllParallel 4 exampleFragments defaultOptions)"
    using example_pair_in_parallel [of 4] by simp
  from result_invariants [OF h] h show ?thesis by blast
qed

lemma fold_skip_push:
  "fold (\<lambda>x acc. if A x then acc else if B x then acc else if C x then acc @ [g x] else acc) xs acc0
     = acc0 @ map g (filter (\<lambda>x. \<not> A x \<and> \<not> B x \<and> C x) xs)"
  by (induction xs arbitrary: acc0) simp_all

lemma compareOne_eq:
  "compareOne t fs opts =
     (if 0 < optMinLines opts \<and> lineCount t < optMinLines opts then []
      else sortByScore (map (oneResult (optNormalize opts) t)
             (filter (\<lambda>f. \<not> (0 < optMinLines opts \<and> lineCount f < optMinLines opts)
                          \<and> \<not> sameIdentity f t
                          \<and> optMinSimilarity opts
                               \<le> calculateSimilarity (comparedText (optNormalize opts) t)
                                    (comparedText (optNormalize opts) f)) fs)))"
proof -
  have body: "(\<lambda>func results.
        if 0 < optMinLines opts \<and> endLine func - startLine func + 1 < optMinLines opts then results
        else if filePath func = filePath t \<and> startLine func = startLine t then results
        else if optMinSimilarity opts
                  \<le> (if optNormalize opts then calculateSimilarity (normalizedCode t) (normalizedCode func)
                      else calculateSimilarity (code t) (code func))
             then results @
                  [\<lparr>function1 = functionReference t, function2 = functionReference func,
                    similarityScore = calculateSimilarity (code t) (code func),
                    normalizedScore = (if optNormalize opts
                       then calculateSimilarity (normalizedCode t) (normalizedCode func)
                       else calculateSimilarity (code t) (code func)),
                    lines1 = endLine t - startLine t + 1, lines2 = endLine func - startLine func + 1\<rparr>]
             else results)
     = (\<lambda>x acc. if 0 < optMinLines opts \<and> lineCount x < optMinLines opts then acc
          else if sameIdentity x t then acc
          else if optMinSimilarity opts
                    \<le> calculateSimilarity (comparedText (optNormalize opts) t)
                         (comparedText (optNormalize opts) x)
               then acc @ [oneResult (optNormalize opts) t x] else acc)"
    by (intro ext) (simp add: lineCount_def sameIdentity_def comparedText_def oneResult_def)
  show ?thesis
    unfolding compareOne_def Let_def optMinLines_def [symmetric] optMinSimilarity_def [symmetric]
      optNormalize_def [symmetric] body fold_skip_push
    by (cases "optNormalize opts")
       (simp_all add: lineCount_def oneResult_def [abs_def] comparedText_def sameIdentity_def)
qed

lemma opt_excludeSelf_update [simp]:
  "optMinLines (opts\<lparr>excludeSelf := x\<rparr>) = optMinLines opts"
  "optMinSimilarity (opts\<lparr>excludeSelf := x\<rparr>) = optMinSimilarity opts"
  "optNormalize (opts\<lparr>excludeSelf := x\<rparr>) = optNormalize opts"
  by (simp_all add: optMinLines_def optMinSimilarity_def optNormalize_def)

lemma function_oneResult [simp]:
  "function1 (oneResult normalize' t f) = functionReference t"
  "function2 (oneResult normalize' t f) = functionReference f"
  by (simp_all add: oneResult_def)

lemma sameIdentity_functionReference_left [simp]:
  "sameIdentity (functionReference f) g = sameIdentity f g"
  by (simp add: sameIdentity_def functionReference_def)

text \<open>
  Claim C10. \<open>compareOne\<close> never pairs the target with a fragment that shares the target's
  identity, and the \<open>excludeSelf\<close> option has no effect on it; and when \<open>minLines > 0\<close> and the
  target's own line count is below \<open>minLines\<close>, it returns the empty list.
\<close>

theorem compareOne_skips_self:
  "(r \<in> set (compareOne t fs opts) \<longrightarrow>
      function1 r = functionReference t \<and> \<not> sameIdentity (function2 r) t)
   \<and> compareOne t fs (opts\<lparr>excludeSelf := x\<rparr>) = compareOne t fs opts
   \<and> (0 < optMinLines opts \<and> lineCount t < optMinLines opts \<longrightarrow> compareOne t fs opts = [])"
  unfolding compareOne_eq by auto

theorem compareOne_skips_self_witness:
  "oneResult True exampleMethod (exampleOther 5)
     \<in> set (compareOne exampleMethod [exampleBody, exampleOther 5]
              (defaultOptions\<lparr>excludeSelf := Some False\<rparr>))
   \<and> \<not> sameIdentity (function2 (oneResult True exampleMethod (exampleOther 5))) exampleMethod
   \<and> sameIdentity exampleBody exampleMethod
   \<and> 0 < optMinLines (defaultOptions\<lparr>minLines := Some 5\<rparr>)
   \<and> lineCount shortFragment < optMinLines (defaultOptions\<lparr>minLines := Some 5\<rparr>)
   \<and> compareOne shortFragment [longFragment 10] (defaultOptions\<lparr>minLines := Some 5\<rparr>) = []"
proof -
  let ?opts = "defaultOptions\<lparr>excludeSelf := Some False\<rparr>"
  have d: "\<not> sameIdentity (exampleOther 5) exampleMethod" "sameIdentity exampleBody exampleMethod"
    by (simp_all add: sameIdentity_def exampleOther_def exampleMethod_def exampleBody_def)
  have r: "oneResult True exampleMethod (exampleOther 5)
     \<in> set (compareOne exampleMethod [exampleBody, exampleOther 5] ?opts)"
    unfolding compareOne_eq using d calculateSimilarity_nonneg by simp
  have m: "0 < optMinLines (defaultOptions\<lparr>minLines := Some 5\<rparr>)
      \<and> lineCount shortFragment < optMinLines (defaultOptions\<lparr>minLines := Some 5\<rparr>)"
    by (simp add: optMinLines_def lineCount_def shortFragment_def)
  from compareOne_skips_self [of "oneResult True exampleMethod (exampleOther 5)" exampleMethod
      "[exampleBody, exampleOther 5]" ?opts]
    compareOne_skips_self [of _ shortFragment "[longFragment 10]" "defaultOptions\<lparr>minLines := Some 5\<rparr>"]
    r m d
  show ?thesis by blast
qed

section \<open>The pruning filters at the threshold\<close>

text \<open>
  Claim C3. Pruning soundness: for every pair of texts and every \<open>minSimilarity\<close> in \<open>[0, 100]\<close>,
  if \<open>calculateSimilarity\<close> gives the pair a score of at least \<open>minSimilarity\<close>, then none of the
  three filters rejects the pair; the drivers test the score with \<open>\<ge>\<close>, so a pair that scores
  exactly \<open>minSimilarity\<close> is meant to be reported. The code does not achieve this. The
  length-difference filter and the frequency filter allow
  \<open>\<lfloor>maxLength \<cdot> (1 - minSimilarity / 100)\<rfloor>\<close> edits, computed in doubles, and the computed product
  can fall just below the integer that the exact product is. \<open>aaaa\<close> against \<open>aaaab\<close> is one
  insertion in five characters and scores exactly 80; with \<open>minSimilarity = 80\<close> the exact
  product is 1 and the computed one is the largest double below 1, so the filter allows a
  length difference of 0 and rejects the pair, and \<open>compareAll\<close> returns nothing for it. The
  ceiling of the thresholded scorer is the same expression (claim C5).
\<close>

theorem lengthDiffFilter_rejects_pair_at_threshold:
  "calculateSimilarity ''aaaa'' ''aaaab'' = 80
   \<and> lengthDiffFilterRejects ''aaaa'' ''aaaab'' 80
   \<and> compareAll [nearFragment ''aaaa'' 1, nearFragment ''aaaab'' 2]
        (defaultOptions\<lparr>minSimilarity := Some 80\<rparr>) = []"
proof -
  have "levenshteinDistance ''aaaa'' ''aaaab'' = 1" by code_simp
  then have e: "ed ''aaaa'' ''aaaab'' = 1" by (simp add: levenshteinDistance_ed)
  have m: "(of_nat (max (length ''aaaa'') (length ''aaaab'')) :: rat) = 5" by simp
  have q: "((5::rat) - of_nat 1) / 5 = 4 / 5" by simp
  have ne: "''aaaa'' \<noteq> ''aaaab''" "''aaaa'' \<noteq> []" "''aaaab'' \<noteq> []" by simp_all
  have s: "calculateSimilarity ''aaaa'' ''aaaab'' = 80"
    unfolding calculateSimilarity_value [OF ne] e m q by (rule score_4_of_5_twice)
  have r: "lengthDiffFilterRejects ''aaaa'' ''aaaab'' 80"
    unfolding lengthDiffFilterRejects_def Let_def m ceiling_5_at_80 by simp
  let ?opts = "defaultOptions\<lparr>minSimilarity := Some 80\<rparr>"
  have o: "optMinSimilarity ?opts = 80" "optMinLines ?opts = 0" "optNormalize ?opts"
    by (simp_all add: optMinSimilarity_def optMinLines_def optNormalize_def defaultOptions_def)
  have p: "pairOrder (Suc (Suc 0)) = [(0, 1)]" by code_simp
  have "\<not> qualifies 80 True (nearFragment ''aaaa'' 1) (nearFragment ''aaaab'' 2)"
    using r by (simp add: qualifies_def comparedText_def nearFragment_def)
  then have "pairScan (optExcludeSelf ?opts) 80 True
               [nearFragment ''aaaa'' 1, nearFragment ''aaaab'' 2] = []"
    by (simp add: pairScan_def p)
  then have c: "compareAll [nearFragment ''aaaa'' 1, nearFragment ''aaaab'' 2] ?opts = []"
    using o by (simp add: compareAll_eq sortByScore_def)
  show ?thesis using s r c by simp
qed

end
